theory Spec2Isabelle
  imports Complex_Main "HOL-Library.Word" "HOL-Library.Sublist" "HOL-Library.Log_Nat"
begin

section \<open>The test-orchestration framework: data model\<close>

text \<open>
  Embedding of \<^verbatim>\<open>components/test_framework\<close>: \<^verbatim>\<open>base_test.hpp/.cpp\<close> (the test case
  with its step runner and its three-phase lifecycle) and \<^verbatim>\<open>test_manager.hpp/.cpp\<close>
  (the registry, the run modes, the aggregate queries).

  Conventions of the embedding.
  \<^item> \<^verbatim>\<open>uint32_t\<close> is \<open>32 word\<close>; \<^verbatim>\<open>esp_err_t\<close> (a C \<^verbatim>\<open>int\<close>) is the
    \<open>32 word\<close> of its two's-complement bits, which the conversion to the \<^verbatim>\<open>uint32_t\<close>
    member \<^verbatim>\<open>error_code\<close> keeps.
  \<^item> Data members keep their names without the trailing underscore (\<^verbatim>\<open>status_\<close> is
    \<open>status\<close>), which an identifier cannot end with here.
  \<^item> Test objects live in a store indexed by address, because the manager keeps
    \<^verbatim>\<open>shared_ptr\<close>s and the same object may be registered more than once. The virtual
    methods of each object are given by a table \<open>vt\<close> from addresses to hooks, which
    never changes.
  \<^item> A hook sees the \<^verbatim>\<open>BaseTest\<close> members of its own object and the world (tick counter,
    peripherals, and the members that subclasses add); step actions, which are closures
    of the subclass, see the world.
  \<^item> A \<^verbatim>\<open>float\<close> is the rational number it denotes; every operation rounds its exact
    result to the nearest binary32 value, ties to even (section \<open>Single precision\<close>).
  \<^item> Log output is not modelled. Instead the state carries a list of events: every hook
    call made by \<^verbatim>\<open>run()\<close> with its return code, and the start and end of every
    \<^verbatim>\<open>executeTest\<close> (where the source calls \<^verbatim>\<open>logTestStart\<close> and \<^verbatim>\<open>logTestEnd\<close>).
    \<^verbatim>\<open>runSteps\<close> likewise returns the list of the steps it executed with their outcomes
    (where the source logs \<^verbatim>\<open>Executing step: ...\<close>).
\<close>

datatype TestResult = NOT_RUN | RUNNING | PASSED | FAILED | SKIPPED | TIMEOUT

type_synonym esp_err_t = "32 word"

text \<open>The three codes of ESP-IDF's \<^verbatim>\<open>esp_err.h\<close> that the framework names.\<close>

definition ESP_OK :: esp_err_t where
  "ESP_OK = 0"

definition ESP_FAIL :: esp_err_t where
  "ESP_FAIL = - 1"

definition ESP_ERR_INVALID_ARG :: esp_err_t where
  "ESP_ERR_INVALID_ARG = 0x102"

record TestStatus =
  result :: TestResult
  message :: string
  duration_ms :: "32 word"
  start_time :: "32 word"
  error_code :: "32 word"

text \<open>
  The world outside the \<^verbatim>\<open>BaseTest\<close> members: the FreeRTOS tick counter read by
  \<^verbatim>\<open>xTaskGetTickCount()\<close>, the configuration constant \<^verbatim>\<open>portTICK_PERIOD_MS\<close>, and
  everything else (\<open>periph\<close>). Time passes when a hook or a step action advances
  \<open>tick_count\<close>.
\<close>

record 'd world =
  tick_count :: "32 word"
  portTICK_PERIOD_MS :: "32 word"
  periph :: 'd

definition now_ms :: "'d world \<Rightarrow> 32 word" where
  "now_ms w = tick_count w * portTICK_PERIOD_MS w"

text \<open>A \<^verbatim>\<open>std::function\<close> may be empty: \<open>None\<close>.\<close>

record 'd TestStep =
  name :: string
  execute :: "('d world \<Rightarrow> esp_err_t \<times> 'd world) option"
  timeout_ms :: "32 word"
  critical :: bool

record 'd BaseTest =
  test_name :: string
  test_description :: string
  status :: TestStatus
  test_steps :: "'d TestStep list"

type_synonym 'd hook = "'d BaseTest \<times> 'd world \<Rightarrow> esp_err_t \<times> 'd BaseTest \<times> 'd world"

record 'd hooks =
  v_setup :: "'d hook"
  v_execute :: "'d hook"
  v_teardown :: "'d hook"

type_synonym addr = nat

datatype phase = Setup | Execute | Teardown

datatype event =
    HookCall addr phase esp_err_t
  | TestStart addr
  | TestEnd addr TestResult

record 'd system =
  heap :: "addr \<Rightarrow> 'd BaseTest"
  env :: "'d world"
  calls :: "event list"

section \<open>BaseTest\<close>

definition BaseTest_new :: "string \<Rightarrow> string \<Rightarrow> 'd BaseTest" where
  "BaseTest_new nm description =
     \<lparr>test_name = nm, test_description = description,
      status = \<lparr>result = NOT_RUN, message = [], duration_ms = 0, start_time = 0,
                 error_code = 0\<rparr>,
      test_steps = []\<rparr>"

definition updateStatus :: "TestResult \<Rightarrow> string \<Rightarrow> 'd BaseTest \<Rightarrow> 'd BaseTest" where
  "updateStatus r msg t =
     (let st = (status t)\<lparr>result := r, message := msg\<rparr>
      in if r \<noteq> RUNNING \<and> r \<noteq> NOT_RUN
         then (if r = FAILED
               then t\<lparr>status := st\<lparr>error_code := ESP_FAIL\<rparr>\<rparr>
               else t\<lparr>status := st\<lparr>error_code := ESP_OK\<rparr>\<rparr>)
         else t\<lparr>status := st\<rparr>)"

definition startTimer :: "'d world \<Rightarrow> 'd BaseTest \<Rightarrow> 'd BaseTest" where
  "startTimer w t = t\<lparr>status := (status t)\<lparr>start_time := now_ms w\<rparr>\<rparr>"

definition stopTimer :: "'d world \<Rightarrow> 'd BaseTest \<Rightarrow> 'd BaseTest" where
  "stopTimer w t =
     (let current_time = now_ms w
      in t\<lparr>status := (status t)\<lparr>duration_ms := current_time - start_time (status t)\<rparr>\<rparr>)"

definition addStep ::
  "string \<Rightarrow> ('d world \<Rightarrow> esp_err_t \<times> 'd world) option \<Rightarrow> 32 word \<Rightarrow> bool \<Rightarrow>
   'd BaseTest \<Rightarrow> 'd BaseTest" where
  "addStep nm step tmo crit t =
     t\<lparr>test_steps := test_steps t @
          [\<lparr>name = nm, execute = step, timeout_ms = tmo, critical = crit\<rparr>]\<rparr>"

definition executeStep :: "'d TestStep \<Rightarrow> 'd world \<Rightarrow> esp_err_t \<times> 'd world" where
  "executeStep step w =
     (case execute step of
        None \<Rightarrow> (ESP_ERR_INVALID_ARG, w)
      | Some f \<Rightarrow> f w)"

text \<open>
  The loop of \<^verbatim>\<open>runSteps\<close> over the remaining steps. The third component lists the
  steps executed, in order, each with the code \<open>executeStep\<close> returned for it.
\<close>

fun runSteps_loop ::
  "'d TestStep list \<Rightarrow> 'd world \<Rightarrow> esp_err_t \<times> 'd world \<times> (string \<times> esp_err_t) list" where
  "runSteps_loop [] w = (ESP_OK, w, [])"
| "runSteps_loop (step # rest) w =
     (let (r, w') = executeStep step w
      in if r \<noteq> ESP_OK
         then (if critical step
               then (r, w', [(name step, r)])
               else (let (r2, w2, tr) = runSteps_loop rest w' in (r2, w2, (name step, r) # tr)))
         else (let (r2, w2, tr) = runSteps_loop rest w' in (r2, w2, (name step, r) # tr)))"

definition runSteps ::
  "'d BaseTest \<Rightarrow> 'd world \<Rightarrow> esp_err_t \<times> 'd world \<times> (string \<times> esp_err_t) list" where
  "runSteps t w = runSteps_loop (test_steps t) w"

text \<open>A member function applied to the object at \<open>this\<close>.\<close>

definition on_this :: "addr \<Rightarrow> ('d BaseTest \<Rightarrow> 'd BaseTest) \<Rightarrow> 'd system \<Rightarrow> 'd system" where
  "on_this this f s = s\<lparr>heap := (heap s)(this := f (heap s this))\<rparr>"

definition hook_of :: "'d hooks \<Rightarrow> phase \<Rightarrow> 'd hook" where
  "hook_of h ph = (case ph of Setup \<Rightarrow> v_setup h | Execute \<Rightarrow> v_execute h | Teardown \<Rightarrow> v_teardown h)"

text \<open>A virtual call of \<open>setup()\<close>, \<open>execute()\<close> or \<open>teardown()\<close> on the object at \<open>this\<close>.\<close>

definition call_hook ::
  "(addr \<Rightarrow> 'd hooks) \<Rightarrow> phase \<Rightarrow> addr \<Rightarrow> 'd system \<Rightarrow> esp_err_t \<times> 'd system" where
  "call_hook vt ph this s =
     (let (r, t', w') = hook_of (vt this) ph (heap s this, env s)
      in (r, s\<lparr>heap := (heap s)(this := t'), env := w',
                calls := calls s @ [HookCall this ph r]\<rparr>))"

definition run :: "(addr \<Rightarrow> 'd hooks) \<Rightarrow> addr \<Rightarrow> 'd system \<Rightarrow> TestResult \<times> 'd system" where
  "run vt this s0 =
     (let s1 = on_this this (updateStatus RUNNING ''Test execution started'') s0;
          s2 = on_this this (startTimer (env s1)) s1;
          (r, s3) = call_hook vt Setup this s2
      in if r \<noteq> ESP_OK
         then (let s4 = on_this this (stopTimer (env s3)) s3;
                   s5 = on_this this (updateStatus FAILED ''Setup phase failed'') s4
               in (FAILED, s5))
         else (let (r, s4) = call_hook vt Execute this s3
               in if r \<noteq> ESP_OK
                  then (let s5 = on_this this (stopTimer (env s4)) s4;
                            s6 = on_this this (updateStatus FAILED ''Execute phase failed'') s5;
                            (r', s7) = call_hook vt Teardown this s6
                        in (FAILED, s7))
                  else (let (r, s5) = call_hook vt Teardown this s4
                        in if r \<noteq> ESP_OK
                           then (let s6 = on_this this (stopTimer (env s5)) s5;
                                     s7 = on_this this
                                            (updateStatus FAILED ''Teardown phase failed'') s6
                                 in (FAILED, s7))
                           else (let s6 = on_this this (stopTimer (env s5)) s5;
                                     s7 = on_this this
                                            (updateStatus PASSED ''Test completed successfully'')
                                            s6
                                 in (PASSED, s7)))))"

section \<open>Single precision\<close>

text \<open>
  IEEE 754 binary32 arithmetic as the compiler emits it for \<^verbatim>\<open>float\<close>: the exact result of
  an operation is rounded to the nearest number with a 24-bit significand, ties to the even
  significand. \<open>float_exponent x\<close> is the exponent of the binade of a positive \<open>x\<close>, not
  below the smallest normal exponent \<open>- 126\<close> (below it the spacing stays \<open>2 powi - 149\<close>).
  Overflow to infinity is left out: no value of the framework comes near \<open>2 powi 128\<close>.
\<close>

definition round_half_even :: "rat \<Rightarrow> int" where
  "round_half_even q =
     (let f = \<lfloor>q\<rfloor>; r = q - of_int f
      in if r < 1 / 2 then f else if 1 / 2 < r then f + 1
         else if even f then f else f + 1)"

definition float_exponent :: "rat \<Rightarrow> int" where
  "float_exponent x =
     (let (p, q) = quotient_of x;
          d = bitlen p - bitlen q;
          e = (if 2 powi d \<le> x then d else d - 1)
      in max (- 126) e)"

definition to_float :: "rat \<Rightarrow> rat" where
  "to_float x =
     (let ulp = 2 powi (float_exponent x - 23)
      in of_int (round_half_even (x / ulp)) * ulp)"

text \<open>The conversion \<^verbatim>\<open>(float)\<close> of a \<^verbatim>\<open>uint32_t\<close>, and \<^verbatim>\<open>/\<close> and \<^verbatim>\<open>*\<close> on \<^verbatim>\<open>float\<close>.\<close>

definition float_of_uint32 :: "32 word \<Rightarrow> rat" where
  "float_of_uint32 w = to_float (of_int (uint w))"

definition float_div :: "rat \<Rightarrow> rat \<Rightarrow> rat" where
  "float_div a b = to_float (a / b)"

definition float_mul :: "rat \<Rightarrow> rat \<Rightarrow> rat" where
  "float_mul a b = to_float (a * b)"

section \<open>TestManager\<close>

record TestManager =
  tests :: "addr list"
  stop_on_first_failure :: bool
  parallel_execution :: bool
  test_timeout_ms :: "32 word"
  overall_result :: TestResult
  execution_start_time :: "32 word"
  execution_end_time :: "32 word"

record TestStatistics =
  total_tests :: "32 word"
  passed_tests :: "32 word"
  failed_tests :: "32 word"
  skipped_tests :: "32 word"
  timeout_tests :: "32 word"
  total_duration_ms :: "32 word"
  success_rate :: rat

definition TestManager_new :: TestManager where
  "TestManager_new =
     \<lparr>tests = [], stop_on_first_failure = False, parallel_execution = False,
      test_timeout_ms = 300000, overall_result = NOT_RUN,
      execution_start_time = 0, execution_end_time = 0\<rparr>"

text \<open>Both overloads of \<^verbatim>\<open>addTest\<close> ignore a null pointer (\<open>None\<close>).\<close>

definition addTest :: "addr option \<Rightarrow> TestManager \<Rightarrow> TestManager" where
  "addTest test m = (case test of None \<Rightarrow> m | Some a \<Rightarrow> m\<lparr>tests := tests m @ [a]\<rparr>)"

definition setStopOnFirstFailure :: "bool \<Rightarrow> TestManager \<Rightarrow> TestManager" where
  "setStopOnFirstFailure stop m = m\<lparr>stop_on_first_failure := stop\<rparr>"

definition executeTest ::
  "(addr \<Rightarrow> 'd hooks) \<Rightarrow> addr option \<Rightarrow> 'd system \<Rightarrow> bool \<times> 'd system" where
  "executeTest vt test s =
     (case test of
        None \<Rightarrow> (False, s)
      | Some a \<Rightarrow>
          (let s1 = s\<lparr>calls := calls s @ [TestStart a]\<rparr>;
               start_time = now_ms (env s1);
               (r, s2) = run vt a s1;
               end_time = now_ms (env s2);
               duration = end_time - start_time;
               s3 = s2\<lparr>calls := calls s2 @ [TestEnd a r]\<rparr>
           in (r = PASSED, s3)))"

definition updateOverallResult :: "TestResult \<Rightarrow> TestManager \<Rightarrow> TestManager" where
  "updateOverallResult test_result m =
     (if test_result = FAILED then m\<lparr>overall_result := FAILED\<rparr>
      else if test_result = TIMEOUT \<and> overall_result m \<noteq> FAILED
           then m\<lparr>overall_result := TIMEOUT\<rparr>
           else m)"

text \<open>
  The loop over the tests to run, which \<^verbatim>\<open>runAllTests\<close> and \<^verbatim>\<open>runTestsMatching\<close> both
  contain; \<open>all_passed\<close> is the local flag. The \<^verbatim>\<open>break\<close> returns at once.
\<close>

fun run_loop ::
  "(addr \<Rightarrow> 'd hooks) \<Rightarrow> addr list \<Rightarrow> bool \<Rightarrow> TestManager \<Rightarrow> 'd system \<Rightarrow>
   bool \<times> TestManager \<times> 'd system" where
  "run_loop vt [] all_passed m s = (all_passed, m, s)"
| "run_loop vt (test # rest) all_passed m s =
     (let (test_passed, s') = executeTest vt (Some test) s
      in if \<not> test_passed
         then (let m' = updateOverallResult (result (status (heap s' test))) m
               in if stop_on_first_failure m'
                  then (False, m', s')
                  else run_loop vt rest False m' s')
         else run_loop vt rest all_passed m s')"

definition runAllTests ::
  "(addr \<Rightarrow> 'd hooks) \<Rightarrow> TestManager \<Rightarrow> 'd system \<Rightarrow> bool \<times> TestManager \<times> 'd system" where
  "runAllTests vt m s =
     (if tests m = []
      then (True, m\<lparr>overall_result := SKIPPED\<rparr>, s)
      else (let m1 = m\<lparr>execution_start_time := now_ms (env s)\<rparr>;
                m2 = m1\<lparr>overall_result := PASSED\<rparr>;
                (all_passed, m3, s') = run_loop vt (tests m2) True m2 s;
                m4 = m3\<lparr>execution_end_time := now_ms (env s')\<rparr>
            in (all_passed, m4, s')))"

definition runTest ::
  "(addr \<Rightarrow> 'd hooks) \<Rightarrow> string \<Rightarrow> TestManager \<Rightarrow> 'd system \<Rightarrow>
   bool \<times> TestManager \<times> 'd system" where
  "runTest vt nm m s =
     (case find (\<lambda>a. test_name (heap s a) = nm) (tests m) of
        None \<Rightarrow> (False, m, s)
      | Some a \<Rightarrow>
          (let m1 = m\<lparr>execution_start_time := now_ms (env s)\<rparr>;
               (res, s') = executeTest vt (Some a) s;
               m2 = m1\<lparr>execution_end_time := now_ms (env s')\<rparr>
           in (res, m2, s')))"

text \<open>
  \<^verbatim>\<open>::tolower\<close> in the C locale, the only one the firmware runs in: the 26 capital letters
  are mapped, every other byte is kept.
\<close>

definition tolower :: "char \<Rightarrow> char" where
  "tolower c =
     (if (65::nat) \<le> of_char c \<and> of_char c \<le> (90::nat)
      then char_of (of_char c + (32::nat)) else c)"

text \<open>
  \<^verbatim>\<open>std::string::find\<close> of the C++ library: the lowest position at which the pattern
  occurs in the text, \<open>None\<close> for \<^verbatim>\<open>npos\<close>.
\<close>

fun str_find :: "string \<Rightarrow> string \<Rightarrow> nat option" where
  "str_find [] pat = (if pat = [] then Some 0 else None)"
| "str_find (c # cs) pat =
     (if prefix pat (c # cs) then Some 0 else map_option Suc (str_find cs pat))"

definition matchesPattern :: "string \<Rightarrow> string \<Rightarrow> bool" where
  "matchesPattern text pattern =
     (if pattern = ''*'' then True
      else (let lower_text = map tolower text;
                lower_pattern = map tolower pattern
            in str_find lower_text lower_pattern \<noteq> None))"

text \<open>The first loop of \<^verbatim>\<open>runTestsMatching\<close>, which fills \<^verbatim>\<open>matching_tests\<close>.\<close>

definition matching_tests :: "string \<Rightarrow> TestManager \<Rightarrow> 'd system \<Rightarrow> addr list" where
  "matching_tests pattern m s =
     filter (\<lambda>a. matchesPattern (test_name (heap s a)) pattern) (tests m)"

definition runTestsMatching ::
  "(addr \<Rightarrow> 'd hooks) \<Rightarrow> string \<Rightarrow> TestManager \<Rightarrow> 'd system \<Rightarrow>
   bool \<times> TestManager \<times> 'd system" where
  "runTestsMatching vt pattern m s =
     (let matching = matching_tests pattern m s
      in if matching = []
         then (True, m, s)
         else (let m1 = m\<lparr>execution_start_time := now_ms (env s)\<rparr>;
                   m2 = m1\<lparr>overall_result := PASSED\<rparr>;
                   (all_passed, m3, s') = run_loop vt matching True m2 s;
                   m4 = m3\<lparr>execution_end_time := now_ms (env s')\<rparr>
               in (all_passed, m4, s')))"

text \<open>
  The scan of \<^verbatim>\<open>getOverallResult\<close>; the flags are \<open>has_failures\<close>, \<open>has_timeouts\<close>
  and \<open>all_passed\<close>.
\<close>

fun overall_loop ::
  "(addr \<Rightarrow> 'd BaseTest) \<Rightarrow> addr list \<Rightarrow> bool \<times> bool \<times> bool \<Rightarrow> bool \<times> bool \<times> bool" where
  "overall_loop h [] flags = flags"
| "overall_loop h (test # rest) (has_failures, has_timeouts, all_passed) =
     overall_loop h rest
       (case result (status (h test)) of
          FAILED \<Rightarrow> (True, has_timeouts, False)
        | TIMEOUT \<Rightarrow> (has_failures, True, False)
        | NOT_RUN \<Rightarrow> (has_failures, has_timeouts, False)
        | RUNNING \<Rightarrow> (has_failures, has_timeouts, False)
        | SKIPPED \<Rightarrow> (has_failures, has_timeouts, False)
        | PASSED \<Rightarrow> (has_failures, has_timeouts, all_passed))"

definition getOverallResult :: "TestManager \<Rightarrow> 'd system \<Rightarrow> TestResult" where
  "getOverallResult m s =
     (if tests m = [] then NOT_RUN
      else (let (has_failures, has_timeouts, all_passed) =
                  overall_loop (heap s) (tests m) (False, False, True)
            in if has_failures then FAILED
               else if has_timeouts then TIMEOUT
               else if all_passed then PASSED
               else SKIPPED))"

definition TestStatistics_new :: TestStatistics where
  "TestStatistics_new =
     \<lparr>total_tests = 0, passed_tests = 0, failed_tests = 0, skipped_tests = 0,
      timeout_tests = 0, total_duration_ms = 0, success_rate = 0\<rparr>"

fun stats_loop ::
  "(addr \<Rightarrow> 'd BaseTest) \<Rightarrow> addr list \<Rightarrow> TestStatistics \<Rightarrow> TestStatistics" where
  "stats_loop h [] stats = stats"
| "stats_loop h (test # rest) stats =
     (let st = status (h test);
          stats1 = stats\<lparr>total_duration_ms := total_duration_ms stats + duration_ms st\<rparr>
      in stats_loop h rest
           (case result st of
              PASSED \<Rightarrow> stats1\<lparr>passed_tests := passed_tests stats1 + 1\<rparr>
            | FAILED \<Rightarrow> stats1\<lparr>failed_tests := failed_tests stats1 + 1\<rparr>
            | SKIPPED \<Rightarrow> stats1\<lparr>skipped_tests := skipped_tests stats1 + 1\<rparr>
            | TIMEOUT \<Rightarrow> stats1\<lparr>timeout_tests := timeout_tests stats1 + 1\<rparr>
            | _ \<Rightarrow> stats1))"

text \<open>
  \<^verbatim>\<open>size_t\<close> has 32 bits on the target, so \<^verbatim>\<open>tests_.size()\<close> is \<open>of_nat (length (tests m))\<close>.
  In \<^verbatim>\<open>(float)stats.passed_tests / stats.total_tests * 100.0f\<close> both counters are converted
  to \<^verbatim>\<open>float\<close>, the quotient is rounded, and so is its product with \<open>100\<close>.
\<close>

definition getStatistics :: "TestManager \<Rightarrow> 'd system \<Rightarrow> TestStatistics" where
  "getStatistics m s =
     (let stats0 = TestStatistics_new\<lparr>total_tests := of_nat (length (tests m))\<rparr>;
          stats = stats_loop (heap s) (tests m) stats0
      in if total_tests stats > 0
         then stats\<lparr>success_rate :=
                float_mul
                  (float_div (float_of_uint32 (passed_tests stats))
                     (float_of_uint32 (total_tests stats)))
                  100\<rparr>
         else stats)"

section \<open>Observations on the event list\<close>

text \<open>The events that a computation from \<open>s\<close> to \<open>s'\<close> appended.\<close>

definition new_calls :: "'d system \<Rightarrow> 'd system \<Rightarrow> event list" where
  "new_calls s s' = drop (length (calls s)) (calls s')"

text \<open>The hook calls made on the object at \<open>a\<close>, in order, with their return codes.\<close>

fun hook_calls :: "addr \<Rightarrow> event list \<Rightarrow> (phase \<times> esp_err_t) list" where
  "hook_calls a [] = []"
| "hook_calls a (HookCall b ph r # evs) =
     (if a = b then (ph, r) # hook_calls a evs else hook_calls a evs)"
| "hook_calls a (TestStart b # evs) = hook_calls a evs"
| "hook_calls a (TestEnd b res # evs) = hook_calls a evs"

text \<open>The tests that \<open>executeTest\<close> ran, in order, each with what its \<open>run()\<close> returned.\<close>

fun test_ends :: "event list \<Rightarrow> (addr \<times> TestResult) list" where
  "test_ends [] = []"
| "test_ends (TestEnd a res # evs) = (a, res) # test_ends evs"
| "test_ends (HookCall a ph r # evs) = test_ends evs"
| "test_ends (TestStart a # evs) = test_ends evs"

fun event_addr :: "event \<Rightarrow> addr" where
  "event_addr (HookCall a ph r) = a"
| "event_addr (TestStart a) = a"
| "event_addr (TestEnd a res) = a"

section \<open>Notions used in the statements\<close>

text \<open>
  The name contains the pattern as a case-insensitive substring: some contiguous part of
  the name equals the pattern when the case of letters is ignored.
\<close>

definition contains_ci :: "string \<Rightarrow> string \<Rightarrow> bool" where
  "contains_ci text pattern \<longleftrightarrow>
     (\<exists>pre mid suf. text = pre @ mid @ suf \<and> map tolower mid = map tolower pattern)"

text \<open>
  A \<open>teardown()\<close> that does not write \<open>status_.result\<close> itself. None of the four test
  classes of the repository touches \<open>status_\<close>.
\<close>

definition teardown_keeps_result :: "'d hooks \<Rightarrow> bool" where
  "teardown_keeps_result h \<longleftrightarrow>
     (\<forall>t w. result (status (fst (snd (v_teardown h (t, w))))) = result (status t))"

section \<open>Example configurations\<close>

text \<open>A hook that returns the given code and changes nothing.\<close>

definition returning :: "esp_err_t \<Rightarrow> 'd hook" where
  "returning r = (\<lambda>(t, w). (r, t, w))"

definition passing_hooks :: "unit hooks" where
  "passing_hooks = \<lparr>v_setup = returning ESP_OK, v_execute = returning ESP_OK,
                    v_teardown = returning ESP_OK\<rparr>"

definition failing_execute_hooks :: "unit hooks" where
  "failing_execute_hooks = \<lparr>v_setup = returning ESP_OK, v_execute = returning ESP_FAIL,
                            v_teardown = returning ESP_OK\<rparr>"

text \<open>
  Three test objects at the addresses 0, 1 and 2, named as in \<^verbatim>\<open>test_main.cpp\<close>; the
  second one fails in its execute phase, the others pass.
\<close>

definition demo_vt :: "addr \<Rightarrow> unit hooks" where
  "demo_vt a = (if a = 1 then failing_execute_hooks else passing_hooks)"

definition demo_system :: "unit system" where
  "demo_system =
     \<lparr>heap = (\<lambda>a. BaseTest_new
                (if a = 0 then ''BNO055'' else if a = 1 then ''PSRAM'' else ''WiFi'') []),
      env = \<lparr>tick_count = 0, portTICK_PERIOD_MS = 10, periph = ()\<rparr>,
      calls = []\<rparr>"

definition demo_manager :: TestManager where
  "demo_manager = addTest (Some 2) (addTest (Some 1) (addTest (Some 0) TestManager_new))"

text \<open>
  Hooks that return the given code and advance the tick counter by the given amount, so
  that the world shows which of them have run. In \<open>ticking_vt\<close> the object at 0 fails in
  \<open>setup()\<close> and the object at 1 in \<open>execute()\<close>; \<open>setup()\<close> takes one tick,
  \<open>execute()\<close> two and \<open>teardown()\<close> four.
\<close>

definition ticking_hook :: "esp_err_t \<Rightarrow> 32 word \<Rightarrow> unit hook" where
  "ticking_hook r n = (\<lambda>(t, w). (r, t, w\<lparr>tick_count := tick_count w + n\<rparr>))"

definition ticking_vt :: "addr \<Rightarrow> unit hooks" where
  "ticking_vt a =
     \<lparr>v_setup = ticking_hook (if a = 0 then ESP_FAIL else ESP_OK) 1,
      v_execute = ticking_hook (if a = 1 then ESP_FAIL else ESP_OK) 2,
      v_teardown = ticking_hook ESP_OK 4\<rparr>"

text \<open>A world action that returns the given code and lets one tick pass.\<close>

definition ticking :: "esp_err_t \<Rightarrow> unit world \<Rightarrow> esp_err_t \<times> unit world" where
  "ticking r w = (r, w\<lparr>tick_count := tick_count w + 1\<rparr>)"

definition demo_world :: "unit world" where
  "demo_world = \<lparr>tick_count = 0, portTICK_PERIOD_MS = 10, periph = ()\<rparr>"

text \<open>The step sequences of the two step-runner properties of the specification.\<close>

definition demo_steps_critical :: "unit BaseTest" where
  "demo_steps_critical =
     addStep ''C'' (Some (ticking ESP_OK)) 5000 True
       (addStep ''B'' (Some (ticking ESP_FAIL)) 5000 True
         (addStep ''A'' (Some (ticking ESP_OK)) 5000 True (BaseTest_new ''steps'' [])))"

definition demo_steps_noncritical :: "unit BaseTest" where
  "demo_steps_noncritical =
     addStep ''B'' (Some (ticking ESP_OK)) 5000 True
       (addStep ''A'' (Some (ticking ESP_FAIL)) 5000 False (BaseTest_new ''steps'' []))"

text \<open>The same manager told to stop at the first failure.\<close>

definition demo_stop_manager :: TestManager where
  "demo_stop_manager = setStopOnFirstFailure True demo_manager"

text \<open>
  A store after a run of three tests: the first and the third have passed in 120 ms and
  50 ms, the second has failed after 30 ms.
\<close>

definition finished :: "TestResult \<Rightarrow> 32 word \<Rightarrow> unit BaseTest" where
  "finished r d =
     (BaseTest_new ''t'' [])
       \<lparr>status := \<lparr>result = r, message = [], duration_ms = d, start_time = 0,
                   error_code = 0\<rparr>\<rparr>"

definition stats_system :: "unit system" where
  "stats_system =
     \<lparr>heap = (\<lambda>a. if a = 0 then finished PASSED 120
                   else if a = 1 then finished FAILED 30 else finished PASSED 50),
      env = demo_world, calls = []\<rparr>"

text \<open>Two passed tests whose durations add up to more than \<open>2 ^ 32\<close> ms.\<close>

definition long_system :: "unit system" where
  "long_system =
     \<lparr>heap = (\<lambda>a. if a = 0 then finished PASSED 4294967295 else finished PASSED 2),
      env = demo_world, calls = []\<rparr>"

definition long_manager :: TestManager where
  "long_manager = addTest (Some 1) (addTest (Some 0) TestManager_new)"

section \<open>The step runner\<close>

lemma runSteps_loop_names:
  "runSteps_loop steps w = (r, w', tr) \<Longrightarrow>
     length tr \<le> length steps \<and> map fst tr = map name (take (length tr) steps)"
proof (induction steps arbitrary: w r w' tr)
  case Nil
  then show ?case by simp
next
  case (Cons step rest)
  obtain r1 w1 where e: "executeStep step w = (r1, w1)" by (cases "executeStep step w")
  obtain r2 w2 tr2 where l: "runSteps_loop rest w1 = (r2, w2, tr2)"
    by (cases "runSteps_loop rest w1")
  from Cons.IH [OF l] Cons.prems e l show ?case
    by (auto split: if_splits)
qed

lemma runSteps_loop_world:
  "runSteps_loop steps w = (r, w', tr) \<Longrightarrow>
     w' = foldl (\<lambda>w st. snd (executeStep st w)) w (take (length tr) steps)"
proof (induction steps arbitrary: w r w' tr)
  case Nil
  then show ?case by simp
next
  case (Cons step rest)
  obtain r1 w1 where e: "executeStep step w = (r1, w1)" by (cases "executeStep step w")
  obtain r2 w2 tr2 where l: "runSteps_loop rest w1 = (r2, w2, tr2)"
    by (cases "runSteps_loop rest w1")
  from Cons.IH [OF l] Cons.prems e l show ?case
    by (auto split: if_splits)
qed

lemma runSteps_loop_fail:
  "runSteps_loop steps w = (r, w', tr) \<Longrightarrow> r \<noteq> ESP_OK \<Longrightarrow>
     tr \<noteq> [] \<and> snd (last tr) = r \<and> critical (steps ! (length tr - 1))"
proof (induction steps arbitrary: w r w' tr)
  case Nil
  then show ?case by simp
next
  case (Cons step rest)
  obtain r1 w1 where e: "executeStep step w = (r1, w1)" by (cases "executeStep step w")
  obtain r2 w2 tr2 where l: "runSteps_loop rest w1 = (r2, w2, tr2)"
    by (cases "runSteps_loop rest w1")
  from Cons.IH [OF l] Cons.prems e l show ?case
    by (auto split: if_splits)
qed

lemma runSteps_loop_ok:
  "runSteps_loop steps w = (r, w', tr) \<Longrightarrow> r = ESP_OK \<Longrightarrow>
     length tr = length steps \<and> (\<forall>i<length tr. critical (steps ! i) \<longrightarrow> snd (tr ! i) = ESP_OK)"
proof (induction steps arbitrary: w r w' tr)
  case Nil
  then show ?case by simp
next
  case (Cons step rest)
  obtain r1 w1 where e: "executeStep step w = (r1, w1)" by (cases "executeStep step w")
  obtain r2 w2 tr2 where l: "runSteps_loop rest w1 = (r2, w2, tr2)"
    by (cases "runSteps_loop rest w1")
  from Cons.IH [OF l] Cons.prems e l show ?case
    by (auto split: if_splits simp: nth_Cons split: nat.splits)
qed

lemma runSteps_loop_before_last:
  "runSteps_loop steps w = (r, w', tr) \<Longrightarrow> Suc i < length tr \<Longrightarrow>
     \<not> (snd (tr ! i) \<noteq> ESP_OK \<and> critical (steps ! i))"
proof (induction steps arbitrary: w r w' tr i)
  case Nil
  then show ?case by simp
next
  case (Cons step rest)
  obtain r1 w1 where e: "executeStep step w = (r1, w1)" by (cases "executeStep step w")
  obtain r2 w2 tr2 where l: "runSteps_loop rest w1 = (r2, w2, tr2)"
    by (cases "runSteps_loop rest w1")
  from Cons.IH [OF l] Cons.prems e l show ?case
    by (cases i) (force split: if_splits)+
qed

lemma runSteps_loop_outcomes:
  "runSteps_loop steps w = (r, w', tr) \<Longrightarrow> i < length tr \<Longrightarrow>
     snd (tr ! i) = fst (executeStep (steps ! i) (foldl (\<lambda>w st. snd (executeStep st w)) w (take i steps)))"
proof (induction steps arbitrary: w r w' tr i)
  case Nil
  then show ?case by simp
next
  case (Cons step rest)
  obtain r1 w1 where e: "executeStep step w = (r1, w1)" by (cases "executeStep step w")
  obtain r2 w2 tr2 where l: "runSteps_loop rest w1 = (r2, w2, tr2)"
    by (cases "runSteps_loop rest w1")
  from Cons.IH [OF l] Cons.prems e l show ?case
    by (cases i) (auto split: if_splits)
qed



lemma updateStatus_result [simp]:
  "result (status (updateStatus r msg t)) = r"
  "message (status (updateStatus r msg t)) = msg"
  by (simp_all add: updateStatus_def Let_def)

lemma call_hook_calls:
  "call_hook vt ph this s = (r, s') \<Longrightarrow> calls s' = calls s @ [HookCall this ph r]"
  by (auto simp: call_hook_def Let_def split: prod.splits)

lemma call_hook_frame:
  "call_hook vt ph this s = (r, s') \<Longrightarrow> b \<noteq> this \<Longrightarrow> heap s' b = heap s b"
  by (auto simp: call_hook_def Let_def split: prod.splits)

lemma on_this_simps [simp]:
  "calls (on_this this f s) = calls s"
  "env (on_this this f s) = env s"
  "heap (on_this this f s) this = f (heap s this)"
  "b \<noteq> this \<Longrightarrow> heap (on_this this f s) b = heap s b"
  by (simp_all add: on_this_def)

lemma run_cases:
  assumes "run vt this s = (res, s')"
  shows
   "(\<exists>r. r \<noteq> ESP_OK \<and> res = FAILED \<and> calls s' = calls s @ [HookCall this Setup r] \<and>
         result (status (heap s' this)) = FAILED \<and>
         message (status (heap s' this)) = ''Setup phase failed'') \<or>
    (\<exists>e t. e \<noteq> ESP_OK \<and> res = FAILED \<and>
         calls s' = calls s @ [HookCall this Setup ESP_OK, HookCall this Execute e,
                               HookCall this Teardown t]) \<or>
    (\<exists>t. t \<noteq> ESP_OK \<and> res = FAILED \<and>
         calls s' = calls s @ [HookCall this Setup ESP_OK, HookCall this Execute ESP_OK,
                               HookCall this Teardown t] \<and>
         result (status (heap s' this)) = FAILED \<and>
         message (status (heap s' this)) = ''Teardown phase failed'') \<or>
    (res = PASSED \<and>
         calls s' = calls s @ [HookCall this Setup ESP_OK, HookCall this Execute ESP_OK,
                               HookCall this Teardown ESP_OK] \<and>
         result (status (heap s' this)) = PASSED \<and>
         message (status (heap s' this)) = ''Test completed successfully'')"
proof -
  let ?s2 = "on_this this (startTimer (env (on_this this (updateStatus RUNNING ''Test execution started'') s)))
               (on_this this (updateStatus RUNNING ''Test execution started'') s)"
  obtain r s3 where h1: "call_hook vt Setup this ?s2 = (r, s3)"
    by (cases "call_hook vt Setup this ?s2")
  have c3: "calls s3 = calls s @ [HookCall this Setup r]"
    using call_hook_calls [OF h1] by simp
  show ?thesis
  proof (cases "r = ESP_OK")
    case False
    with assms h1 c3 show ?thesis
      by (auto simp: run_def Let_def)
  next
    case rok: True
    obtain e s4 where h2: "call_hook vt Execute this s3 = (e, s4)"
      by (cases "call_hook vt Execute this s3")
    have c4: "calls s4 = calls s @ [HookCall this Setup ESP_OK, HookCall this Execute e]"
      using call_hook_calls [OF h2] c3 rok by simp
    show ?thesis
    proof (cases "e = ESP_OK")
      case False
      let ?s6 = "on_this this (updateStatus FAILED ''Execute phase failed'')
                   (on_this this (stopTimer (env s4)) s4)"
      obtain t s7 where h3: "call_hook vt Teardown this ?s6 = (t, s7)"
        by (cases "call_hook vt Teardown this ?s6")
      have "calls s7 = calls s @ [HookCall this Setup ESP_OK, HookCall this Execute e,
                               HookCall this Teardown t]"
        using call_hook_calls [OF h3] c4 by simp
      with assms h1 h2 h3 rok False show ?thesis
        by (auto simp: run_def Let_def)
    next
      case eok: True
      obtain t s5 where h3: "call_hook vt Teardown this s4 = (t, s5)"
        by (cases "call_hook vt Teardown this s4")
      have "calls s5 = calls s @ [HookCall this Setup ESP_OK, HookCall this Execute ESP_OK,
                               HookCall this Teardown t]"
        using call_hook_calls [OF h3] c4 eok by simp
      with assms h1 h2 h3 rok eok show ?thesis
        by (cases "t = ESP_OK") (auto simp: run_def Let_def)
    qed
  qed
qed

lemma run_frame:
  assumes "run vt this s = (res, s')" and "b \<noteq> this"
  shows "heap s' b = heap s b"
proof -
  let ?s2 = "on_this this (startTimer (env (on_this this (updateStatus RUNNING ''Test execution started'') s)))
               (on_this this (updateStatus RUNNING ''Test execution started'') s)"
  obtain r s3 where h1: "call_hook vt Setup this ?s2 = (r, s3)"
    by (cases "call_hook vt Setup this ?s2")
  have f3: "heap s3 b = heap s b"
    using call_hook_frame [OF h1 assms(2)] assms(2) by simp
  obtain e s4 where h2: "call_hook vt Execute this s3 = (e, s4)"
    by (cases "call_hook vt Execute this s3")
  have f4: "heap s4 b = heap s b"
    using call_hook_frame [OF h2 assms(2)] f3 by simp
  let ?s6 = "on_this this (updateStatus FAILED ''Execute phase failed'')
               (on_this this (stopTimer (env s4)) s4)"
  obtain t s7 where h3: "call_hook vt Teardown this ?s6 = (t, s7)"
    by (cases "call_hook vt Teardown this ?s6")
  have f7: "heap s7 b = heap s b"
    using call_hook_frame [OF h3 assms(2)] f4 assms(2) by simp
  obtain t' s5 where h4: "call_hook vt Teardown this s4 = (t', s5)"
    by (cases "call_hook vt Teardown this s4")
  have f5: "heap s5 b = heap s b"
    using call_hook_frame [OF h4 assms(2)] f4 by simp
  from assms h1 h2 h3 h4 f3 f4 f5 f7 show ?thesis
    by (auto simp: run_def Let_def split: if_splits)
qed

section \<open>Properties of the test case\<close>

text \<open>
  Claim C9. Executing a step whose action is unbound returns \<^verbatim>\<open>ESP_ERR_INVALID_ARG\<close> and
  invokes nothing: the world is as before. Otherwise the step's outcome is what the action
  returns, code and world, and \<open>timeout_ms\<close> has no influence on it.
\<close>

theorem executeStep_unbound_or_verbatim:
  "(execute step = None \<longrightarrow> executeStep step w = (ESP_ERR_INVALID_ARG, w)) \<and>
   (\<forall>f. execute step = Some f \<longrightarrow> executeStep step w = f w) \<and>
   executeStep (step\<lparr>timeout_ms := tmo\<rparr>) w = executeStep step w"
  by (simp add: executeStep_def)

theorem executeStep_unbound_or_verbatim_witness:
  "executeStep \<lparr>name = ''A'', execute = None, timeout_ms = 5000, critical = True\<rparr> demo_world
     = (ESP_ERR_INVALID_ARG, demo_world) \<and>
   executeStep \<lparr>name = ''A'', execute = Some (ticking ESP_FAIL), timeout_ms = 5000,
                critical = True\<rparr> demo_world
     = ticking ESP_FAIL demo_world \<and>
   executeStep \<lparr>name = ''A'', execute = Some (ticking ESP_FAIL), timeout_ms = 0,
                critical = True\<rparr> demo_world
     = executeStep \<lparr>name = ''A'', execute = Some (ticking ESP_FAIL), timeout_ms = 5000,
                critical = True\<rparr> demo_world"
  using executeStep_unbound_or_verbatim
          [of "\<lparr>name = ''A'', execute = None, timeout_ms = 5000, critical = True\<rparr>" demo_world 0]
        executeStep_unbound_or_verbatim
          [of "\<lparr>name = ''A'', execute = Some (ticking ESP_FAIL), timeout_ms = 5000,
                critical = True\<rparr>" demo_world 0]
  by simp

text \<open>
  Claim C3. Let \<open>tr\<close> be the steps that \<open>runSteps\<close> executed, with their outcomes.
  \<^item> The steps are executed in declaration order: \<open>tr\<close> names an initial segment of
    \<open>test_steps\<close>, each outcome is what executing that step returned in the world its
    predecessors left, and the final world is the one these steps left, so that no later
    step was invoked.
  \<^item> Every executed step but the last succeeded or is not critical.
  \<^item> If the result is a failure, it is the code of the last executed step, and that step
    is critical.
  \<^item> If the result is \<^verbatim>\<open>ESP_OK\<close>, every step was executed and no critical step failed;
    the failures of the other steps have not changed the result.
\<close>

theorem runSteps_critical_short_circuit:
  assumes "runSteps t w = (r, w', tr)"
  shows "map fst tr = map name (take (length tr) (test_steps t)) \<and>
         length tr \<le> length (test_steps t) \<and>
         (\<forall>i<length tr. snd (tr ! i) =
            fst (executeStep (test_steps t ! i)
                   (foldl (\<lambda>w st. snd (executeStep st w)) w (take i (test_steps t))))) \<and>
         w' = foldl (\<lambda>w st. snd (executeStep st w)) w (take (length tr) (test_steps t)) \<and>
         (\<forall>i. Suc i < length tr \<longrightarrow> snd (tr ! i) = ESP_OK \<or> \<not> critical (test_steps t ! i)) \<and>
         (r \<noteq> ESP_OK \<longrightarrow>
            tr \<noteq> [] \<and> snd (last tr) = r \<and> critical (test_steps t ! (length tr - 1))) \<and>
         (r = ESP_OK \<longrightarrow>
            length tr = length (test_steps t) \<and>
            (\<forall>i<length tr. critical (test_steps t ! i) \<longrightarrow> snd (tr ! i) = ESP_OK))"
proof -
  from assms have l: "runSteps_loop (test_steps t) w = (r, w', tr)"
    by (simp add: runSteps_def)
  have "map fst tr = map name (take (length tr) (test_steps t))"
    and "length tr \<le> length (test_steps t)"
    using runSteps_loop_names [OF l] by simp_all
  moreover have "\<forall>i<length tr. snd (tr ! i) =
           fst (executeStep (test_steps t ! i)
                  (foldl (\<lambda>w st. snd (executeStep st w)) w (take i (test_steps t))))"
    using runSteps_loop_outcomes [OF l] by blast
  moreover have "w' = foldl (\<lambda>w st. snd (executeStep st w)) w (take (length tr) (test_steps t))"
    by (rule runSteps_loop_world [OF l])
  moreover have "\<forall>i. Suc i < length tr \<longrightarrow>
                   snd (tr ! i) = ESP_OK \<or> \<not> critical (test_steps t ! i)"
    using runSteps_loop_before_last [OF l] by blast
  moreover have "r \<noteq> ESP_OK \<longrightarrow>
           tr \<noteq> [] \<and> snd (last tr) = r \<and> critical (test_steps t ! (length tr - 1))"
    using runSteps_loop_fail [OF l] by blast
  moreover have "r = ESP_OK \<longrightarrow>
           length tr = length (test_steps t) \<and>
           (\<forall>i<length tr. critical (test_steps t ! i) \<longrightarrow> snd (tr ! i) = ESP_OK)"
    using runSteps_loop_ok [OF l] by blast
  ultimately show ?thesis by blast
qed

lemma demo_steps_critical_run:
  "runSteps demo_steps_critical demo_world =
     (ESP_FAIL, demo_world\<lparr>tick_count := 2\<rparr>, [(''A'', ESP_OK), (''B'', ESP_FAIL)])"
  by (simp add: runSteps_def demo_steps_critical_def addStep_def BaseTest_new_def
        executeStep_def ticking_def demo_world_def ESP_OK_def ESP_FAIL_def)

lemma demo_steps_noncritical_run:
  "runSteps demo_steps_noncritical demo_world =
     (ESP_OK, demo_world\<lparr>tick_count := 2\<rparr>, [(''A'', ESP_FAIL), (''B'', ESP_OK)])"
  by (simp add: runSteps_def demo_steps_noncritical_def addStep_def BaseTest_new_def
        executeStep_def ticking_def demo_world_def ESP_OK_def ESP_FAIL_def)

text \<open>
  The two sequences of the specification: in \<open>[A, B (fails), C]\<close>, all critical, \<open>A\<close> and
  \<open>B\<close> are executed, \<open>C\<close> is not, and the failure of \<open>B\<close> is returned; in
  \<open>[A (not critical, fails), B]\<close> both are executed and the result is success.
\<close>

theorem runSteps_critical_short_circuit_witness:
  "runSteps demo_steps_critical demo_world =
     (ESP_FAIL, demo_world\<lparr>tick_count := 2\<rparr>, [(''A'', ESP_OK), (''B'', ESP_FAIL)]) \<and>
   map name (take 2 (test_steps demo_steps_critical)) = [''A'', ''B''] \<and>
   length (test_steps demo_steps_critical) = 3 \<and>
   critical (test_steps demo_steps_critical ! 1) \<and>
   runSteps demo_steps_noncritical demo_world =
     (ESP_OK, demo_world\<lparr>tick_count := 2\<rparr>, [(''A'', ESP_FAIL), (''B'', ESP_OK)]) \<and>
   length (test_steps demo_steps_noncritical) = 2 \<and>
   \<not> critical (test_steps demo_steps_noncritical ! 0)"
proof -
  note c = runSteps_critical_short_circuit [OF demo_steps_critical_run]
  note n = runSteps_critical_short_circuit [OF demo_steps_noncritical_run]
  have "map name (take 2 (test_steps demo_steps_critical)) = [''A'', ''B'']"
    using c by (simp add: numeral_2_eq_2)
  moreover have "critical (test_steps demo_steps_critical ! 1)"
    using c by (simp add: ESP_OK_def ESP_FAIL_def)
  moreover have "length (test_steps demo_steps_critical) = 3"
    by (simp add: demo_steps_critical_def addStep_def BaseTest_new_def)
  moreover have "length (test_steps demo_steps_noncritical) = 2"
    using n by simp
  moreover have "\<not> critical (test_steps demo_steps_noncritical ! 0)"
    using n by (auto simp: ESP_OK_def ESP_FAIL_def)
  ultimately show ?thesis
    using demo_steps_critical_run demo_steps_noncritical_run by simp
qed

text \<open>
  Claim C1. If \<open>setup()\<close> returns success, then whatever \<open>execute()\<close> returns, \<open>run()\<close>
  invokes \<open>teardown()\<close> exactly once, after \<open>execute()\<close>: the hook calls of the run are
  \<open>setup()\<close>, \<open>execute()\<close>, \<open>teardown()\<close>, and the state after the run is the one that this
  single \<open>teardown()\<close> left (with the final status written to the object when \<open>execute()\<close>
  had succeeded). Here \<open>t1\<close>, \<open>w1\<close> are the object and the world after \<open>setup()\<close>,
  \<open>t2\<close>, \<open>w2\<close> after \<open>execute()\<close>, and \<open>t3\<close>, \<open>w3\<close> after \<open>teardown()\<close>.
\<close>

theorem run_teardown_once_after_setup:
  assumes "run vt this s = (res, s')"
      and "v_setup (vt this)
             (startTimer (env s) (updateStatus RUNNING ''Test execution started'' (heap s this)),
              env s) = (ESP_OK, t1, w1)"
      and "v_execute (vt this) (t1, w1) = (e, t2, w2)"
      and "v_teardown (vt this)
             (if e \<noteq> ESP_OK then updateStatus FAILED ''Execute phase failed'' (stopTimer w2 t2)
              else t2, w2) = (td, t3, w3)"
  shows "new_calls s s' =
           [HookCall this Setup ESP_OK, HookCall this Execute e, HookCall this Teardown td] \<and>
         count_list (map fst (hook_calls this (new_calls s s'))) Teardown = 1 \<and>
         s' = s\<lparr>heap := (heap s)
                    (this := if e \<noteq> ESP_OK then t3
                             else if td \<noteq> ESP_OK
                                  then updateStatus FAILED ''Teardown phase failed'' (stopTimer w3 t3)
                                  else updateStatus PASSED ''Test completed successfully''
                                         (stopTimer w3 t3)),
                env := w3,
                calls := calls s @ [HookCall this Setup ESP_OK, HookCall this Execute e,
                                    HookCall this Teardown td]\<rparr> \<and>
         res = (if e = ESP_OK \<and> td = ESP_OK then PASSED else FAILED)"
proof -
  have s': "s' = s\<lparr>heap := (heap s)
                    (this := if e \<noteq> ESP_OK then t3
                             else if td \<noteq> ESP_OK
                                  then updateStatus FAILED ''Teardown phase failed'' (stopTimer w3 t3)
                                  else updateStatus PASSED ''Test completed successfully''
                                         (stopTimer w3 t3)),
                env := w3,
                calls := calls s @ [HookCall this Setup ESP_OK, HookCall this Execute e,
                                    HookCall this Teardown td]\<rparr>"
    and res: "res = (if e = ESP_OK \<and> td = ESP_OK then PASSED else FAILED)"
    using assms
    by (auto simp: run_def call_hook_def hook_of_def on_this_def Let_def split: if_splits)
  from s' have "new_calls s s' =
           [HookCall this Setup ESP_OK, HookCall this Execute e, HookCall this Teardown td]"
    by (simp add: new_calls_def)
  with s' res show ?thesis by simp
qed

text \<open>The definitions that evaluate a run with the ticking hooks.\<close>

lemmas ticking_eval = run_def call_hook_def on_this_def hook_of_def ticking_vt_def
  ticking_hook_def demo_system_def Let_def ESP_OK_def ESP_FAIL_def updateStatus_def
  startTimer_def stopTimer_def BaseTest_new_def now_ms_def new_calls_def

lemma ticking_run_env:
  "tick_count (env (snd (run ticking_vt 0 demo_system))) = 1"
  "tick_count (env (snd (run ticking_vt 1 demo_system))) = 7"
  "tick_count (env (snd (run ticking_vt 2 demo_system))) = 7"
  by (simp_all add: ticking_eval)

text \<open>
  The object at 1 fails in \<open>execute()\<close>, the object at 2 passes; in both runs the three hooks
  have run once each, seven ticks in all.
\<close>

theorem run_teardown_once_after_setup_witness:
  "fst (run ticking_vt 1 demo_system) = FAILED \<and>
   new_calls demo_system (snd (run ticking_vt 1 demo_system)) =
     [HookCall 1 Setup ESP_OK, HookCall 1 Execute ESP_FAIL, HookCall 1 Teardown ESP_OK] \<and>
   count_list (map fst (hook_calls 1 (new_calls demo_system (snd (run ticking_vt 1 demo_system)))))
     Teardown = 1 \<and>
   tick_count (env (snd (run ticking_vt 1 demo_system))) = 7 \<and>
   fst (run ticking_vt 2 demo_system) = PASSED \<and>
   count_list (map fst (hook_calls 2 (new_calls demo_system (snd (run ticking_vt 2 demo_system)))))
     Teardown = 1 \<and>
   tick_count (env (snd (run ticking_vt 2 demo_system))) = 7"
proof -
  let ?w0 = "env demo_system"
  have r1: "run ticking_vt 1 demo_system =
              (fst (run ticking_vt 1 demo_system), snd (run ticking_vt 1 demo_system))"
    and r2: "run ticking_vt 2 demo_system =
              (fst (run ticking_vt 2 demo_system), snd (run ticking_vt 2 demo_system))"
    by simp_all
  let ?a1 = "startTimer ?w0 (updateStatus RUNNING ''Test execution started'' (heap demo_system 1))"
  let ?a3 = "updateStatus FAILED ''Execute phase failed'' (stopTimer (?w0\<lparr>tick_count := 3\<rparr>) ?a1)"
  have s1: "v_setup (ticking_vt 1) (?a1, ?w0) = (ESP_OK, ?a1, ?w0\<lparr>tick_count := 1\<rparr>)"
    by (simp add: ticking_vt_def ticking_hook_def demo_system_def)
  have e1: "v_execute (ticking_vt 1) (?a1, ?w0\<lparr>tick_count := 1\<rparr>) =
              (ESP_FAIL, ?a1, ?w0\<lparr>tick_count := 3\<rparr>)"
    by (simp add: ticking_vt_def ticking_hook_def demo_system_def)
  have t1: "v_teardown (ticking_vt 1)
              (if ESP_FAIL \<noteq> ESP_OK
               then updateStatus FAILED ''Execute phase failed''
                      (stopTimer (?w0\<lparr>tick_count := 3\<rparr>) ?a1)
               else ?a1, ?w0\<lparr>tick_count := 3\<rparr>) =
              (ESP_OK, ?a3, ?w0\<lparr>tick_count := 7\<rparr>)"
    by (simp add: ticking_vt_def ticking_hook_def demo_system_def ESP_OK_def ESP_FAIL_def)
  let ?b1 = "startTimer ?w0 (updateStatus RUNNING ''Test execution started'' (heap demo_system 2))"
  have s2: "v_setup (ticking_vt 2) (?b1, ?w0) = (ESP_OK, ?b1, ?w0\<lparr>tick_count := 1\<rparr>)"
    by (simp add: ticking_vt_def ticking_hook_def demo_system_def)
  have e2: "v_execute (ticking_vt 2) (?b1, ?w0\<lparr>tick_count := 1\<rparr>) =
              (ESP_OK, ?b1, ?w0\<lparr>tick_count := 3\<rparr>)"
    by (simp add: ticking_vt_def ticking_hook_def demo_system_def)
  have t2: "v_teardown (ticking_vt 2)
              (if ESP_OK \<noteq> ESP_OK
               then updateStatus FAILED ''Execute phase failed''
                      (stopTimer (?w0\<lparr>tick_count := 3\<rparr>) ?b1)
               else ?b1, ?w0\<lparr>tick_count := 3\<rparr>) =
              (ESP_OK, ?b1, ?w0\<lparr>tick_count := 7\<rparr>)"
    by (simp add: ticking_vt_def ticking_hook_def demo_system_def)
  note c1 = run_teardown_once_after_setup [OF r1 s1 e1 t1]
  note c2 = run_teardown_once_after_setup [OF r2 s2 e2 t2]
  have n: "ESP_FAIL \<noteq> ESP_OK" by (simp add: ESP_OK_def ESP_FAIL_def)
  from c1 have "fst (run ticking_vt 1 demo_system) =
                  (if ESP_FAIL = ESP_OK \<and> ESP_OK = ESP_OK then PASSED else FAILED)"
    by blast
  with n have f1: "fst (run ticking_vt 1 demo_system) = FAILED" by simp
  from c1 have l1: "new_calls demo_system (snd (run ticking_vt 1 demo_system)) =
      [HookCall 1 Setup ESP_OK, HookCall 1 Execute ESP_FAIL, HookCall 1 Teardown ESP_OK]"
    and k1: "count_list (map fst (hook_calls 1
           (new_calls demo_system (snd (run ticking_vt 1 demo_system))))) Teardown = 1"
    by blast+
  from c2 have "fst (run ticking_vt 2 demo_system) =
                  (if ESP_OK = ESP_OK \<and> ESP_OK = ESP_OK then PASSED else FAILED)"
    by blast
  then have f2: "fst (run ticking_vt 2 demo_system) = PASSED" by simp
  from c2 have k2: "count_list (map fst (hook_calls 2
           (new_calls demo_system (snd (run ticking_vt 2 demo_system))))) Teardown = 1"
    by blast
  from f1 l1 k1 f2 k2 ticking_run_env(2,3) show ?thesis by blast
qed

text \<open>
  Claim C2. If \<open>setup()\<close> returns a failure, \<open>run()\<close> invokes neither \<open>execute()\<close> nor
  \<open>teardown()\<close>: the call of \<open>setup()\<close> is the only event, and the state after the run is
  the state that \<open>setup()\<close> left, with the timer stopped and the status \<open>FAILED\<close> with the
  message \<^verbatim>\<open>Setup phase failed\<close> written to the object. \<open>run()\<close> returns \<open>FAILED\<close>.
\<close>

theorem run_setup_failure_skips_phases:
  assumes "run vt this s = (res, s')"
      and "v_setup (vt this)
             (startTimer (env s) (updateStatus RUNNING ''Test execution started'' (heap s this)),
              env s) = (r, t1, w1)"
      and "r \<noteq> ESP_OK"
  shows "res = FAILED \<and>
         s' = s\<lparr>heap := (heap s)
                    (this := updateStatus FAILED ''Setup phase failed'' (stopTimer w1 t1)),
                env := w1,
                calls := calls s @ [HookCall this Setup r]\<rparr> \<and>
         new_calls s s' = [HookCall this Setup r] \<and>
         hook_calls this (new_calls s s') = [(Setup, r)] \<and>
         result (status (heap s' this)) = FAILED \<and>
         message (status (heap s' this)) = ''Setup phase failed''"
proof -
  have s': "s' = s\<lparr>heap := (heap s)
                    (this := updateStatus FAILED ''Setup phase failed'' (stopTimer w1 t1)),
                env := w1,
                calls := calls s @ [HookCall this Setup r]\<rparr>"
    and res: "res = FAILED"
    using assms
    by (auto simp: run_def call_hook_def hook_of_def on_this_def Let_def)
  from s' have "new_calls s s' = [HookCall this Setup r]"
    by (simp add: new_calls_def)
  with s' res show ?thesis by simp
qed

text \<open>The object at 0 fails in \<open>setup()\<close>: one tick has passed, that of \<open>setup()\<close>.\<close>

theorem run_setup_failure_skips_phases_witness:
  "ESP_FAIL \<noteq> ESP_OK \<and>
   fst (run ticking_vt 0 demo_system) = FAILED \<and>
   new_calls demo_system (snd (run ticking_vt 0 demo_system)) = [HookCall 0 Setup ESP_FAIL] \<and>
   tick_count (env (snd (run ticking_vt 0 demo_system))) = 1 \<and>
   message (status (heap (snd (run ticking_vt 0 demo_system)) 0)) = ''Setup phase failed''"
proof -
  let ?w0 = "env demo_system"
  let ?a1 = "startTimer ?w0 (updateStatus RUNNING ''Test execution started'' (heap demo_system 0))"
  have r: "run ticking_vt 0 demo_system =
              (fst (run ticking_vt 0 demo_system), snd (run ticking_vt 0 demo_system))"
    by simp
  have s: "v_setup (ticking_vt 0) (?a1, ?w0) = (ESP_FAIL, ?a1, ?w0\<lparr>tick_count := 1\<rparr>)"
    by (simp add: ticking_vt_def ticking_hook_def demo_system_def)
  have n: "ESP_FAIL \<noteq> ESP_OK" by (simp add: ESP_OK_def ESP_FAIL_def)
  note c = run_setup_failure_skips_phases [OF r s n]
  from c have "fst (run ticking_vt 0 demo_system) = FAILED"
    and "new_calls demo_system (snd (run ticking_vt 0 demo_system)) = [HookCall 0 Setup ESP_FAIL]"
    and "message (status (heap (snd (run ticking_vt 0 demo_system)) 0)) = ''Setup phase failed''"
    by blast+
  with n ticking_run_env(1) show ?thesis by blast
qed

section \<open>The loop of the manager\<close>

lemma test_ends_append [simp]: "test_ends (E1 @ E2) = test_ends E1 @ test_ends E2"
  by (induction E1 rule: test_ends.induct) simp_all

lemma new_calls_eq: "calls s' = calls s @ E \<Longrightarrow> new_calls s s' = E"
  by (simp add: new_calls_def)

lemma call_hook_keeps_result:
  assumes "call_hook vt Teardown this s = (r, s')" and "teardown_keeps_result (vt this)"
  shows "result (status (heap s' this)) = result (status (heap s this))"
proof -
  obtain r' t' w' where h: "v_teardown (vt this) (heap s this, env s) = (r', t', w')"
    by (cases "v_teardown (vt this) (heap s this, env s)")
  from assms(2) have
    "result (status (fst (snd (v_teardown (vt this) (heap s this, env s))))) =
       result (status (heap s this))"
    by (simp add: teardown_keeps_result_def)
  with h have "result (status t') = result (status (heap s this))" by simp
  with assms(1) h show ?thesis
    by (auto simp: call_hook_def hook_of_def Let_def)
qed

lemma run_failed_status:
  assumes "run vt this s = (res, s')" and "teardown_keeps_result (vt this)" and "res \<noteq> PASSED"
  shows "result (status (heap s' this)) = FAILED"
proof -
  let ?s2 = "on_this this (startTimer (env (on_this this (updateStatus RUNNING ''Test execution started'') s)))
               (on_this this (updateStatus RUNNING ''Test execution started'') s)"
  obtain r s3 where h1: "call_hook vt Setup this ?s2 = (r, s3)"
    by (cases "call_hook vt Setup this ?s2")
  obtain e s4 where h2: "call_hook vt Execute this s3 = (e, s4)"
    by (cases "call_hook vt Execute this s3")
  let ?s6 = "on_this this (updateStatus FAILED ''Execute phase failed'')
               (on_this this (stopTimer (env s4)) s4)"
  obtain t s7 where h3: "call_hook vt Teardown this ?s6 = (t, s7)"
    by (cases "call_hook vt Teardown this ?s6")
  have f7: "result (status (heap s7 this)) = FAILED"
    using call_hook_keeps_result [OF h3 assms(2)] by simp
  obtain t' s5 where h4: "call_hook vt Teardown this s4 = (t', s5)"
    by (cases "call_hook vt Teardown this s4")
  from assms(1,3) h1 h2 h3 h4 f7 show ?thesis
    by (auto simp: run_def Let_def split: if_splits)
qed

lemma executeTest_Some:
  assumes "executeTest vt (Some a) s = (b, s')"
  shows "\<exists>res hs. calls s' = calls s @ TestStart a # hs @ [TestEnd a res] \<and>
           b = (res = PASSED) \<and> test_ends hs = [] \<and> (\<forall>ev\<in>set hs. event_addr ev = a) \<and>
           (res = PASSED \<or> res = FAILED) \<and>
           (res = PASSED \<longrightarrow> result (status (heap s' a)) = PASSED) \<and>
           (res \<noteq> PASSED \<longrightarrow> teardown_keeps_result (vt a) \<longrightarrow>
              result (status (heap s' a)) = FAILED)"
proof -
  let ?s1 = "s\<lparr>calls := calls s @ [TestStart a]\<rparr>"
  obtain res s2 where r: "run vt a ?s1 = (res, s2)" by (cases "run vt a ?s1")
  from assms r have s': "s' = s2\<lparr>calls := calls s2 @ [TestEnd a res]\<rparr>" and b: "b = (res = PASSED)"
    by (auto simp: executeTest_def Let_def)
  from run_cases [OF r] obtain hs where
    hs: "calls s2 = calls s @ TestStart a # hs" "test_ends hs = []" "\<forall>ev\<in>set hs. event_addr ev = a"
    and res: "res = PASSED \<or> res = FAILED"
    and p: "res = PASSED \<longrightarrow> result (status (heap s2 a)) = PASSED"
    by auto
  have f: "res \<noteq> PASSED \<longrightarrow> teardown_keeps_result (vt a) \<longrightarrow> result (status (heap s2 a)) = FAILED"
    using run_failed_status [OF r] by blast
  from hs res p f s' b show ?thesis by auto
qed

lemma executeTest_frame:
  assumes "executeTest vt (Some a) s = (b, s')" and "c \<noteq> a"
  shows "heap s' c = heap s c"
proof -
  let ?s1 = "s\<lparr>calls := calls s @ [TestStart a]\<rparr>"
  obtain res s2 where r: "run vt a ?s1 = (res, s2)" by (cases "run vt a ?s1")
  from assms r have s': "s' = s2\<lparr>calls := calls s2 @ [TestEnd a res]\<rparr>"
    by (auto simp: executeTest_def Let_def)
  from run_frame [OF r assms(2)] s' show ?thesis by simp
qed

lemma updateOverallResult_simps [simp]:
  "stop_on_first_failure (updateOverallResult r m) = stop_on_first_failure m"
  "tests (updateOverallResult r m) = tests m"
  by (simp_all add: updateOverallResult_def)

lemma run_loop_Cons_cases:
  assumes "run_loop vt (a # rest) ap m s = (ap', m', s')"
  obtains (passed) s1 where "executeTest vt (Some a) s = (True, s1)"
            and "run_loop vt rest ap m s1 = (ap', m', s')"
  | (stopped) s1 where "executeTest vt (Some a) s = (False, s1)"
            and "stop_on_first_failure m" and "s' = s1"
            and "m' = updateOverallResult (result (status (heap s1 a))) m" and "\<not> ap'"
  | (failed) s1 where "executeTest vt (Some a) s = (False, s1)"
            and "\<not> stop_on_first_failure m"
            and "run_loop vt rest False (updateOverallResult (result (status (heap s1 a))) m) s1
                   = (ap', m', s')"
proof -
  obtain b s1 where e: "executeTest vt (Some a) s = (b, s1)"
    by (cases "executeTest vt (Some a) s")
  show thesis
  proof (cases b)
    case True
    with assms e show thesis by (intro passed [of s1]) (auto simp: Let_def)
  next
    case False
    show thesis
    proof (cases "stop_on_first_failure m")
      case True
      with assms e False show thesis by (intro stopped [of s1]) (auto simp: Let_def)
    next
      case nostop: False
      with assms e False show thesis by (intro failed [of s1]) (auto simp: Let_def)
    qed
  qed
qed

lemma run_loop_extends_ex:
  "run_loop vt xs ap m s = (ap', m', s') \<Longrightarrow> \<exists>E. calls s' = calls s @ E"
proof (induction xs arbitrary: ap m s)
  case Nil
  then show ?case by simp
next
  case (Cons a rest)
  from Cons.prems show ?case
  proof (cases rule: run_loop_Cons_cases)
    case (passed s1)
    from executeTest_Some [OF passed(1)] Cons.IH [OF passed(2)] show ?thesis
      by auto
  next
    case (stopped s1)
    from executeTest_Some [OF stopped(1)] stopped(3) show ?thesis
      by auto
  next
    case (failed s1)
    from executeTest_Some [OF failed(1)] Cons.IH [OF failed(3)] show ?thesis
      by auto
  qed
qed

lemma run_loop_extends:
  "run_loop vt xs ap m s = (ap', m', s') \<Longrightarrow> calls s' = calls s @ new_calls s s'"
  using run_loop_extends_ex [of vt xs ap m s ap' m' s'] by (auto simp: new_calls_def)

text \<open>What one iteration contributes to the events.\<close>

lemma run_loop_step_events:
  assumes "executeTest vt (Some a) s = (b, s1)" and "calls s' = calls s1 @ new_calls s1 s'"
  shows "\<exists>res. b = (res = PASSED) \<and>
           test_ends (new_calls s s') = (a, res) # test_ends (new_calls s1 s') \<and>
           event_addr ` set (new_calls s s') = insert a (event_addr ` set (new_calls s1 s'))"
proof -
  from executeTest_Some [OF assms(1)] obtain res hs where
    c: "calls s1 = calls s @ TestStart a # hs @ [TestEnd a res]" and b: "b = (res = PASSED)"
    and hs: "test_ends hs = []" "\<forall>ev\<in>set hs. event_addr ev = a"
    by blast
  have "new_calls s s' = TestStart a # hs @ [TestEnd a res] @ new_calls s1 s'"
    using c assms(2) by (intro new_calls_eq) simp
  with b hs show ?thesis by auto
qed

lemma run_loop_executed_prefix:
  "run_loop vt xs ap m s = (ap', m', s') \<Longrightarrow>
     length (test_ends (new_calls s s')) \<le> length xs \<and>
     map fst (test_ends (new_calls s s')) = take (length (test_ends (new_calls s s'))) xs"
proof (induction xs arbitrary: ap m s)
  case Nil
  then show ?case by (simp add: new_calls_def)
next
  case (Cons a rest)
  from Cons.prems(1) show ?case
  proof (cases rule: run_loop_Cons_cases)
    case (passed s1)
    from run_loop_step_events [OF passed(1) run_loop_extends [OF passed(2)]]
      Cons.IH [OF passed(2)] Cons.prems passed(1) executeTest_frame [OF passed(1)]
    show ?thesis by (auto)
  next
    case (stopped s1)
    have "calls s1 = calls s1 @ new_calls s1 s1" by (simp add: new_calls_def)
    from run_loop_step_events [OF stopped(1) this] stopped Cons.prems
      executeTest_frame [OF stopped(1)]
    show ?thesis by (auto simp: new_calls_def)
  next
    case (failed s1)
    from run_loop_step_events [OF failed(1) run_loop_extends [OF failed(3)]]
      Cons.IH [OF failed(3)] Cons.prems failed(1,2) executeTest_frame [OF failed(1)]
    show ?thesis by (auto)
  qed
qed

lemma run_loop_addrs:
  "run_loop vt xs ap m s = (ap', m', s') \<Longrightarrow>
     event_addr ` set (new_calls s s') = fst ` set (test_ends (new_calls s s'))"
proof (induction xs arbitrary: ap m s)
  case Nil
  then show ?case by (simp add: new_calls_def)
next
  case (Cons a rest)
  from Cons.prems(1) show ?case
  proof (cases rule: run_loop_Cons_cases)
    case (passed s1)
    from run_loop_step_events [OF passed(1) run_loop_extends [OF passed(2)]]
      Cons.IH [OF passed(2)]
    show ?thesis by force
  next
    case (stopped s1)
    have "calls s1 = calls s1 @ new_calls s1 s1" by (simp add: new_calls_def)
    from run_loop_step_events [OF stopped(1) this] stopped(3)
    show ?thesis by (force simp: new_calls_def)
  next
    case (failed s1)
    from run_loop_step_events [OF failed(1) run_loop_extends [OF failed(3)]]
      Cons.IH [OF failed(3)]
    show ?thesis by force
  qed
qed

lemma run_loop_stop_butlast:
  "run_loop vt xs ap m s = (ap', m', s') \<Longrightarrow> stop_on_first_failure m \<Longrightarrow>
     \<forall>x\<in>set (butlast (test_ends (new_calls s s'))). snd x = PASSED"
proof (induction xs arbitrary: ap m s)
  case Nil
  then show ?case by (simp add: new_calls_def)
next
  case (Cons a rest)
  from Cons.prems(1) show ?case
  proof (cases rule: run_loop_Cons_cases)
    case (passed s1)
    from run_loop_step_events [OF passed(1) run_loop_extends [OF passed(2)]]
      Cons.IH [OF passed(2)] Cons.prems passed(1) executeTest_frame [OF passed(1)]
    show ?thesis by (auto)
  next
    case (stopped s1)
    have "calls s1 = calls s1 @ new_calls s1 s1" by (simp add: new_calls_def)
    from run_loop_step_events [OF stopped(1) this] stopped Cons.prems
      executeTest_frame [OF stopped(1)]
    show ?thesis by (auto simp: new_calls_def)
  next
    case (failed s1)
    from run_loop_step_events [OF failed(1) run_loop_extends [OF failed(3)]]
      Cons.IH [OF failed(3)] Cons.prems failed(1,2) executeTest_frame [OF failed(1)]
    show ?thesis by (auto)
  qed
qed

lemma run_loop_stop_last:
  "run_loop vt xs ap m s = (ap', m', s') \<Longrightarrow> stop_on_first_failure m \<Longrightarrow> length (test_ends (new_calls s s')) < length xs \<Longrightarrow>
     test_ends (new_calls s s') \<noteq> [] \<and> snd (last (test_ends (new_calls s s'))) \<noteq> PASSED"
proof (induction xs arbitrary: ap m s)
  case Nil
  then show ?case by (simp add: new_calls_def)
next
  case (Cons a rest)
  from Cons.prems(1) show ?case
  proof (cases rule: run_loop_Cons_cases)
    case (passed s1)
    from run_loop_step_events [OF passed(1) run_loop_extends [OF passed(2)]]
      Cons.IH [OF passed(2)] Cons.prems passed(1) executeTest_frame [OF passed(1)]
    show ?thesis by (auto)
  next
    case (stopped s1)
    have "calls s1 = calls s1 @ new_calls s1 s1" by (simp add: new_calls_def)
    from run_loop_step_events [OF stopped(1) this] stopped Cons.prems
      executeTest_frame [OF stopped(1)]
    show ?thesis by (auto simp: new_calls_def)
  next
    case (failed s1)
    from run_loop_step_events [OF failed(1) run_loop_extends [OF failed(3)]]
      Cons.IH [OF failed(3)] Cons.prems failed(1,2) executeTest_frame [OF failed(1)]
    show ?thesis by (auto)
  qed
qed

lemma run_loop_nostop_all:
  "run_loop vt xs ap m s = (ap', m', s') \<Longrightarrow> \<not> stop_on_first_failure m \<Longrightarrow>
     length (test_ends (new_calls s s')) = length xs"
proof (induction xs arbitrary: ap m s)
  case Nil
  then show ?case by (simp add: new_calls_def)
next
  case (Cons a rest)
  from Cons.prems(1) show ?case
  proof (cases rule: run_loop_Cons_cases)
    case (passed s1)
    from run_loop_step_events [OF passed(1) run_loop_extends [OF passed(2)]]
      Cons.IH [OF passed(2)] Cons.prems passed(1) executeTest_frame [OF passed(1)]
    show ?thesis by (auto)
  next
    case (stopped s1)
    have "calls s1 = calls s1 @ new_calls s1 s1" by (simp add: new_calls_def)
    from run_loop_step_events [OF stopped(1) this] stopped Cons.prems
      executeTest_frame [OF stopped(1)]
    show ?thesis by (auto simp: new_calls_def)
  next
    case (failed s1)
    from run_loop_step_events [OF failed(1) run_loop_extends [OF failed(3)]]
      Cons.IH [OF failed(3)] Cons.prems failed(1,2) executeTest_frame [OF failed(1)]
    show ?thesis by (auto)
  qed
qed

lemma run_loop_frame:
  "run_loop vt xs ap m s = (ap', m', s') \<Longrightarrow> b \<notin> fst ` set (test_ends (new_calls s s')) \<Longrightarrow>
     heap s' b = heap s b"
proof (induction xs arbitrary: ap m s)
  case Nil
  then show ?case by (simp add: new_calls_def)
next
  case (Cons a rest)
  from Cons.prems(1) show ?case
  proof (cases rule: run_loop_Cons_cases)
    case (passed s1)
    from run_loop_step_events [OF passed(1) run_loop_extends [OF passed(2)]]
      Cons.IH [OF passed(2)] Cons.prems passed(1) executeTest_frame [OF passed(1)]
    show ?thesis by (auto)
  next
    case (stopped s1)
    have "calls s1 = calls s1 @ new_calls s1 s1" by (simp add: new_calls_def)
    from run_loop_step_events [OF stopped(1) this] stopped Cons.prems
      executeTest_frame [OF stopped(1)]
    show ?thesis by (auto simp: new_calls_def)
  next
    case (failed s1)
    from run_loop_step_events [OF failed(1) run_loop_extends [OF failed(3)]]
      Cons.IH [OF failed(3)] Cons.prems failed(1,2) executeTest_frame [OF failed(1)]
    show ?thesis by (auto)
  qed
qed

lemma run_loop_manager:
  "run_loop vt xs ap m s = (ap', m', s') \<Longrightarrow>
     tests m' = tests m \<and> stop_on_first_failure m' = stop_on_first_failure m"
proof (induction xs arbitrary: ap m s)
  case Nil
  then show ?case by (simp add: new_calls_def)
next
  case (Cons a rest)
  from Cons.prems(1) show ?case
  proof (cases rule: run_loop_Cons_cases)
    case (passed s1)
    from run_loop_step_events [OF passed(1) run_loop_extends [OF passed(2)]]
      Cons.IH [OF passed(2)] Cons.prems passed(1) executeTest_frame [OF passed(1)]
    show ?thesis by (auto)
  next
    case (stopped s1)
    have "calls s1 = calls s1 @ new_calls s1 s1" by (simp add: new_calls_def)
    from run_loop_step_events [OF stopped(1) this] stopped Cons.prems
      executeTest_frame [OF stopped(1)]
    show ?thesis by (auto simp: new_calls_def)
  next
    case (failed s1)
    from run_loop_step_events [OF failed(1) run_loop_extends [OF failed(3)]]
      Cons.IH [OF failed(3)] Cons.prems failed(1,2) executeTest_frame [OF failed(1)]
    show ?thesis by (auto)
  qed
qed

lemma run_loop_all_passed:
  "run_loop vt xs ap m s = (ap', m', s') \<Longrightarrow>
     ap' \<longleftrightarrow> ap \<and> (\<forall>x\<in>set (test_ends (new_calls s s')). snd x = PASSED)"
proof (induction xs arbitrary: ap m s)
  case Nil
  then show ?case by (simp add: new_calls_def)
next
  case (Cons a rest)
  from Cons.prems(1) show ?case
  proof (cases rule: run_loop_Cons_cases)
    case (passed s1)
    from run_loop_step_events [OF passed(1) run_loop_extends [OF passed(2)]]
      Cons.IH [OF passed(2)]
    show ?thesis by auto
  next
    case (stopped s1)
    have "calls s1 = calls s1 @ new_calls s1 s1" by (simp add: new_calls_def)
    from run_loop_step_events [OF stopped(1) this] stopped
    show ?thesis by (auto simp: new_calls_def)
  next
    case (failed s1)
    from run_loop_step_events [OF failed(1) run_loop_extends [OF failed(3)]]
      Cons.IH [OF failed(3)]
    show ?thesis by auto
  qed
qed

text \<open>The state after the loop is the state after executing the tests it ran, one by one.\<close>

lemma run_loop_state:
  "run_loop vt xs ap m s = (ap', m', s') \<Longrightarrow>
     s' = foldl (\<lambda>s a. snd (executeTest vt (Some a) s)) s
            (take (length (test_ends (new_calls s s'))) xs)"
proof (induction xs arbitrary: ap m s)
  case Nil
  then show ?case by simp
next
  case (Cons a rest)
  from Cons.prems(1) show ?case
  proof (cases rule: run_loop_Cons_cases)
    case (passed s1)
    from run_loop_step_events [OF passed(1) run_loop_extends [OF passed(2)]]
      Cons.IH [OF passed(2)] passed(1)
    show ?thesis by auto
  next
    case (stopped s1)
    have "calls s1 = calls s1 @ new_calls s1 s1" by (simp add: new_calls_def)
    from run_loop_step_events [OF stopped(1) this] stopped
    show ?thesis by (auto simp: new_calls_def)
  next
    case (failed s1)
    from run_loop_step_events [OF failed(1) run_loop_extends [OF failed(3)]]
      Cons.IH [OF failed(3)] failed(1)
    show ?thesis by auto
  qed
qed

section \<open>Properties of the manager\<close>

text \<open>The definitions that evaluate a run of the example manager.\<close>

lemmas demo_eval = runAllTests_def run_def call_hook_def on_this_def
  demo_vt_def demo_system_def hook_of_def failing_execute_hooks_def passing_hooks_def
  returning_def Let_def ESP_OK_def ESP_FAIL_def demo_manager_def addTest_def
  TestManager_new_def executeTest_def updateOverallResult_def updateStatus_def
  startTimer_def stopTimer_def BaseTest_new_def now_ms_def new_calls_def

lemma demo_manager_tests: "tests demo_manager = [0, 1, 2]"
  by (simp add: demo_manager_def addTest_def TestManager_new_def)

lemma demo_vt_keeps: "teardown_keeps_result (demo_vt a)"
  by (simp add: teardown_keeps_result_def demo_vt_def failing_execute_hooks_def
        passing_hooks_def returning_def)

text \<open>
  Claim C5. On a manager without registered tests \<open>runAllTests\<close> returns \<open>True\<close>, sets
  \<open>overall_result\<close> to \<open>SKIPPED\<close> and executes no test: the store, the world and the
  event list are as before.
\<close>

theorem runAllTests_empty_registry:
  assumes "tests m = []"
  shows "runAllTests vt m s = (True, m\<lparr>overall_result := SKIPPED\<rparr>, s) \<and>
         new_calls s (snd (snd (runAllTests vt m s))) = []"
  using assms by (simp add: runAllTests_def new_calls_def)

theorem runAllTests_empty_registry_witness:
  "tests TestManager_new = [] \<and>
   fst (runAllTests demo_vt TestManager_new demo_system) = True \<and>
   overall_result (fst (snd (runAllTests demo_vt TestManager_new demo_system))) = SKIPPED \<and>
   snd (snd (runAllTests demo_vt TestManager_new demo_system)) = demo_system"
proof -
  have h: "tests TestManager_new = []" by (simp add: TestManager_new_def)
  from runAllTests_empty_registry [OF h, of demo_vt demo_system] h show ?thesis by simp
qed

text \<open>
  Claim C10. On a manager without registered tests \<open>getOverallResult\<close> returns \<open>NOT_RUN\<close>,
  before any run and after each of the three run modes.
\<close>

theorem getOverallResult_empty_registry:
  assumes "tests m = []"
  shows "getOverallResult m s = NOT_RUN \<and>
         getOverallResult (fst (snd (runAllTests vt m s))) (snd (snd (runAllTests vt m s)))
           = NOT_RUN \<and>
         getOverallResult (fst (snd (runTest vt nm m s))) (snd (snd (runTest vt nm m s)))
           = NOT_RUN \<and>
         getOverallResult (fst (snd (runTestsMatching vt pattern m s)))
             (snd (snd (runTestsMatching vt pattern m s)))
           = NOT_RUN"
  using assms
  by (simp add: getOverallResult_def runAllTests_def runTest_def runTestsMatching_def
        matching_tests_def)

theorem getOverallResult_empty_registry_witness:
  "tests TestManager_new = [] \<and>
   getOverallResult TestManager_new demo_system = NOT_RUN \<and>
   getOverallResult (fst (snd (runAllTests demo_vt TestManager_new demo_system)))
      (snd (snd (runAllTests demo_vt TestManager_new demo_system))) = NOT_RUN \<and>
   NOT_RUN \<noteq> PASSED \<and> NOT_RUN \<noteq> SKIPPED"
proof -
  have h: "tests TestManager_new = []" by (simp add: TestManager_new_def)
  from getOverallResult_empty_registry [OF h, of demo_system demo_vt "''x''" "''*''"] h
  show ?thesis by simp
qed

text \<open>
  Claim C7. With \<open>stop_on_first_failure\<close> set, the tests that \<open>runAllTests\<close> executes are an
  initial segment of the registry, in registration order. Each of them but the last returned
  \<open>PASSED\<close>, and when the segment is not the whole registry, the last one returned something
  else: the iteration halts right after the first test that does not pass. A test object that
  is not in this segment has had no hook called and is unchanged, so its status is
  still \<open>NOT_RUN\<close> if it was; in a registry without repeated objects these are all the tests
  registered after the failing one.
\<close>

theorem runAllTests_stop_on_first_failure:
  assumes "stop_on_first_failure m" and "runAllTests vt m s = (b, m', s')"
  shows "length (test_ends (new_calls s s')) \<le> length (tests m) \<and>
         map fst (test_ends (new_calls s s')) =
           take (length (test_ends (new_calls s s'))) (tests m) \<and>
         (\<forall>i. Suc i < length (test_ends (new_calls s s')) \<longrightarrow>
              snd (test_ends (new_calls s s') ! i) = PASSED) \<and>
         (length (test_ends (new_calls s s')) < length (tests m) \<longrightarrow>
              test_ends (new_calls s s') \<noteq> [] \<and>
              snd (last (test_ends (new_calls s s'))) \<noteq> PASSED) \<and>
         (\<forall>a. a \<notin> fst ` set (test_ends (new_calls s s')) \<longrightarrow>
              a \<notin> event_addr ` set (new_calls s s') \<and> heap s' a = heap s a) \<and>
         (distinct (tests m) \<longrightarrow>
            (\<forall>j. length (test_ends (new_calls s s')) \<le> j \<and> j < length (tests m) \<longrightarrow>
                 tests m ! j \<notin> event_addr ` set (new_calls s s') \<and>
                 heap s' (tests m ! j) = heap s (tests m ! j)))"
proof (cases "tests m = []")
  case True
  with assms(2) show ?thesis by (auto simp: runAllTests_def new_calls_def)
next
  case False
  let ?m2 = "m\<lparr>execution_start_time := now_ms (env s), overall_result := PASSED\<rparr>"
  let ?ends = "test_ends (new_calls s s')"
  obtain ap m3 where l: "run_loop vt (tests m) True ?m2 s = (ap, m3, s')"
    using assms(2) False
    by (cases "run_loop vt (tests m) True ?m2 s") (auto simp: runAllTests_def Let_def)
  have stop: "stop_on_first_failure ?m2" using assms(1) by simp
  have p1: "length ?ends \<le> length (tests m)" and p2: "map fst ?ends = take (length ?ends) (tests m)"
    using run_loop_executed_prefix [OF l] by simp_all
  have p3: "\<forall>i. Suc i < length ?ends \<longrightarrow> snd (?ends ! i) = PASSED"
  proof (intro allI impI)
    fix i assume i: "Suc i < length ?ends"
    then have "?ends ! i = butlast ?ends ! i" by (simp add: nth_butlast)
    moreover from i have "butlast ?ends ! i \<in> set (butlast ?ends)" by simp
    ultimately show "snd (?ends ! i) = PASSED"
      using run_loop_stop_butlast [OF l stop] by auto
  qed
  have p4: "length ?ends < length (tests m) \<longrightarrow> ?ends \<noteq> [] \<and> snd (last ?ends) \<noteq> PASSED"
    using run_loop_stop_last [OF l stop] by blast
  have p5: "\<forall>a. a \<notin> fst ` set ?ends \<longrightarrow>
              a \<notin> event_addr ` set (new_calls s s') \<and> heap s' a = heap s a"
    using run_loop_addrs [OF l] run_loop_frame [OF l] by auto
  have p6: "distinct (tests m) \<longrightarrow>
            (\<forall>j. length ?ends \<le> j \<and> j < length (tests m) \<longrightarrow>
                 tests m ! j \<notin> event_addr ` set (new_calls s s') \<and>
                 heap s' (tests m ! j) = heap s (tests m ! j))"
  proof (intro impI allI)
    fix j assume d: "distinct (tests m)" and j: "length ?ends \<le> j \<and> j < length (tests m)"
    have "tests m ! j \<notin> set (take (length ?ends) (tests m))"
    proof
      assume "tests m ! j \<in> set (take (length ?ends) (tests m))"
      then obtain i where "i < length ?ends" "i < length (tests m)" "tests m ! i = tests m ! j"
        by (auto simp: in_set_conv_nth)
      with d j show False by (simp add: nth_eq_iff_index_eq)
    qed
    then have "tests m ! j \<notin> fst ` set ?ends" using p2 by (metis set_map)
    with p5 show "tests m ! j \<notin> event_addr ` set (new_calls s s') \<and>
                 heap s' (tests m ! j) = heap s (tests m ! j)" by blast
  qed
  from p1 p2 p3 p4 p5 p6 show ?thesis by blast
qed

lemma demo_stop_run_ends:
  "test_ends (new_calls demo_system
      (snd (snd (runAllTests demo_vt demo_stop_manager demo_system))))
     = [(0, PASSED), (1, FAILED)]"
  by (simp add: demo_eval demo_stop_manager_def setStopOnFirstFailure_def)

theorem runAllTests_stop_on_first_failure_witness:
  "stop_on_first_failure demo_stop_manager \<and>
   tests demo_stop_manager = [0, 1, 2] \<and>
   test_ends (new_calls demo_system
      (snd (snd (runAllTests demo_vt demo_stop_manager demo_system))))
     = [(0, PASSED), (1, FAILED)] \<and>
   heap (snd (snd (runAllTests demo_vt demo_stop_manager demo_system))) 2 = heap demo_system 2 \<and>
   result (status (heap demo_system 2)) = NOT_RUN"
proof -
  let ?S = "snd (snd (runAllTests demo_vt demo_stop_manager demo_system))"
  have h1: "stop_on_first_failure demo_stop_manager"
    by (simp add: demo_stop_manager_def setStopOnFirstFailure_def)
  have h2: "runAllTests demo_vt demo_stop_manager demo_system =
     (fst (runAllTests demo_vt demo_stop_manager demo_system),
      fst (snd (runAllTests demo_vt demo_stop_manager demo_system)), ?S)" by simp
  have t: "tests demo_stop_manager = [0, 1, 2]"
    by (simp add: demo_stop_manager_def setStopOnFirstFailure_def demo_manager_tests)
  have "2 \<notin> fst ` set (test_ends (new_calls demo_system ?S))"
    unfolding demo_stop_run_ends by simp
  with runAllTests_stop_on_first_failure [OF h1 h2]
  have "heap ?S 2 = heap demo_system 2" by blast
  moreover have "result (status (heap demo_system 2)) = NOT_RUN"
    by (simp add: demo_system_def BaseTest_new_def)
  ultimately show ?thesis using h1 t demo_stop_run_ends by simp
qed

lemma str_find_sublist: "str_find text pat \<noteq> None \<longleftrightarrow> sublist pat text"
  by (induction "text") (auto simp: sublist_Cons_right)

lemma contains_ci_sublist:
  "contains_ci text pat \<longleftrightarrow> sublist (map tolower pat) (map tolower text)"
proof
  assume "contains_ci text pat"
  then obtain pre mid suf where "text = pre @ mid @ suf" "map tolower mid = map tolower pat"
    by (auto simp: contains_ci_def)
  then have "map tolower text = map tolower pre @ map tolower pat @ map tolower suf" by simp
  then show "sublist (map tolower pat) (map tolower text)" unfolding sublist_def by blast
next
  assume "sublist (map tolower pat) (map tolower text)"
  then obtain ps ss where "map tolower text = ps @ map tolower pat @ ss"
    unfolding sublist_def by blast
  then obtain pre rest where 1: "text = pre @ rest" "map tolower rest = map tolower pat @ ss"
    by (metis map_eq_append_conv)
  then obtain mid suf where "rest = mid @ suf" "map tolower mid = map tolower pat"
    by (metis map_eq_append_conv)
  with 1 show "contains_ci text pat" by (auto simp: contains_ci_def)
qed

lemma matchesPattern_iff:
  "matchesPattern text pattern \<longleftrightarrow> pattern = ''*'' \<or> contains_ci text pattern"
proof -
  have "matchesPattern text pattern \<longleftrightarrow>
          pattern = ''*'' \<or> str_find (map tolower text) (map tolower pattern) \<noteq> None"
    by (simp add: matchesPattern_def Let_def del: not_None_eq)
  then show ?thesis by (metis str_find_sublist contains_ci_sublist)
qed

text \<open>
  Claim C6. \<open>runTestsMatching\<close> selects, in registration order, exactly the registered tests
  whose name contains the pattern as a case-insensitive substring, and every registered test
  for the pattern \<^verbatim>\<open>*\<close>. It executes the selected tests in that order and nothing else: the
  state after it is the state after executing them one by one, and a test that was not
  executed has had no event and is unchanged. All selected tests are executed, unless
  \<open>stop_on_first_failure\<close> is set: then all executed tests but the last returned \<open>PASSED\<close>,
  and if the run stopped before the end of the selection, the last one did not. The result
  tells whether every executed test returned \<open>PASSED\<close>. When nothing is selected it returns
  \<open>True\<close> and leaves manager and state as they were.
\<close>

theorem runTestsMatching_selects_by_substring:
  assumes "runTestsMatching vt pattern m s = (b, m', s')"
  shows "matching_tests pattern m s =
           filter (\<lambda>a. pattern = ''*'' \<or> contains_ci (test_name (heap s a)) pattern) (tests m) \<and>
         matching_tests ''*'' m s = tests m \<and>
         length (test_ends (new_calls s s')) \<le> length (matching_tests pattern m s) \<and>
         map fst (test_ends (new_calls s s')) =
           take (length (test_ends (new_calls s s'))) (matching_tests pattern m s) \<and>
         s' = foldl (\<lambda>s a. snd (executeTest vt (Some a) s)) s
                (map fst (test_ends (new_calls s s'))) \<and>
         (\<not> stop_on_first_failure m \<longrightarrow>
            map fst (test_ends (new_calls s s')) = matching_tests pattern m s) \<and>
         (stop_on_first_failure m \<longrightarrow>
            (\<forall>i. Suc i < length (test_ends (new_calls s s')) \<longrightarrow>
                 snd (test_ends (new_calls s s') ! i) = PASSED) \<and>
            (length (test_ends (new_calls s s')) < length (matching_tests pattern m s) \<longrightarrow>
                 test_ends (new_calls s s') \<noteq> [] \<and>
                 snd (last (test_ends (new_calls s s'))) \<noteq> PASSED)) \<and>
         (\<forall>a. a \<notin> fst ` set (test_ends (new_calls s s')) \<longrightarrow>
              a \<notin> event_addr ` set (new_calls s s') \<and> heap s' a = heap s a) \<and>
         (b \<longleftrightarrow> (\<forall>x\<in>set (test_ends (new_calls s s')). snd x = PASSED)) \<and>
         (matching_tests pattern m s = [] \<longrightarrow> b \<and> m' = m \<and> s' = s \<and> new_calls s s' = [])"
proof -
  let ?sel = "matching_tests pattern m s"
  let ?ends = "test_ends (new_calls s s')"
  have a: "?sel =
           filter (\<lambda>a. pattern = ''*'' \<or> contains_ci (test_name (heap s a)) pattern) (tests m)"
    by (simp add: matching_tests_def matchesPattern_iff)
  have star: "matching_tests ''*'' m s = tests m"
    by (simp add: matching_tests_def matchesPattern_def)
  have e: "?sel = [] \<longrightarrow> b \<and> m' = m \<and> s' = s \<and> new_calls s s' = []"
    using assms by (auto simp: runTestsMatching_def Let_def new_calls_def)
  have c: "length ?ends \<le> length ?sel \<and>
           map fst ?ends = take (length ?ends) ?sel \<and>
           s' = foldl (\<lambda>s a. snd (executeTest vt (Some a) s)) s (map fst ?ends) \<and>
           (\<not> stop_on_first_failure m \<longrightarrow> map fst ?ends = ?sel) \<and>
           (stop_on_first_failure m \<longrightarrow>
              (\<forall>i. Suc i < length ?ends \<longrightarrow> snd (?ends ! i) = PASSED) \<and>
              (length ?ends < length ?sel \<longrightarrow> ?ends \<noteq> [] \<and> snd (last ?ends) \<noteq> PASSED)) \<and>
           (\<forall>a. a \<notin> fst ` set ?ends \<longrightarrow>
                a \<notin> event_addr ` set (new_calls s s') \<and> heap s' a = heap s a) \<and>
           (b \<longleftrightarrow> (\<forall>x\<in>set ?ends. snd x = PASSED))"
  proof (cases "?sel = []")
    case True
    with e show ?thesis by (auto simp: new_calls_def)
  next
    case False
    let ?m2 = "m\<lparr>execution_start_time := now_ms (env s), overall_result := PASSED\<rparr>"
    obtain ap m3 where l: "run_loop vt ?sel True ?m2 s = (ap, m3, s')" and b: "b = ap"
      using assms False
      by (cases "run_loop vt ?sel True ?m2 s") (auto simp: runTestsMatching_def Let_def)
    have p1: "length ?ends \<le> length ?sel" and p2: "map fst ?ends = take (length ?ends) ?sel"
      using run_loop_executed_prefix [OF l] by simp_all
    have p3: "s' = foldl (\<lambda>s a. snd (executeTest vt (Some a) s)) s (map fst ?ends)"
      using run_loop_state [OF l] p2 by simp
    have p4: "\<not> stop_on_first_failure m \<longrightarrow> map fst ?ends = ?sel"
      using run_loop_nostop_all [OF l] p2 by simp
    have p5: "stop_on_first_failure m \<longrightarrow>
                (\<forall>i. Suc i < length ?ends \<longrightarrow> snd (?ends ! i) = PASSED)"
    proof (intro allI impI)
      fix i assume st: "stop_on_first_failure m" and i: "Suc i < length ?ends"
      from st have stop: "stop_on_first_failure ?m2" by simp
      from i have "?ends ! i = butlast ?ends ! i" by (simp add: nth_butlast)
      moreover from i have "butlast ?ends ! i \<in> set (butlast ?ends)" by simp
      ultimately show "snd (?ends ! i) = PASSED"
        using run_loop_stop_butlast [OF l stop] by auto
    qed
    have p6: "stop_on_first_failure m \<longrightarrow>
                (length ?ends < length ?sel \<longrightarrow> ?ends \<noteq> [] \<and> snd (last ?ends) \<noteq> PASSED)"
    proof (intro impI)
      assume st: "stop_on_first_failure m" and "length ?ends < length ?sel"
      from st have "stop_on_first_failure ?m2" by simp
      from run_loop_stop_last [OF l this \<open>length ?ends < length ?sel\<close>]
      show "?ends \<noteq> [] \<and> snd (last ?ends) \<noteq> PASSED" .
    qed
    have p7: "\<forall>a. a \<notin> fst ` set ?ends \<longrightarrow>
                a \<notin> event_addr ` set (new_calls s s') \<and> heap s' a = heap s a"
      using run_loop_addrs [OF l] run_loop_frame [OF l] by auto
    have p8: "b \<longleftrightarrow> (\<forall>x\<in>set ?ends. snd x = PASSED)"
      using run_loop_all_passed [OF l] b by simp
    from p1 p2 p3 p4 p5 p6 p7 p8 show ?thesis by blast
  qed
  from a star c e show ?thesis by blast
qed

lemma demo_matching:
  "matching_tests ''no'' demo_manager demo_system = [0]"
  "matching_tests ''zzz'' demo_manager demo_system = []"
  by code_simp+

lemma demo_stop_matching_ends:
  "test_ends (new_calls demo_system
      (snd (snd (runTestsMatching demo_vt ''*'' demo_stop_manager demo_system))))
     = [(0, PASSED), (1, FAILED)]"
  by (simp add: demo_eval runTestsMatching_def matching_tests_def matchesPattern_def
        demo_stop_manager_def setStopOnFirstFailure_def)

text \<open>
  The example of the specification: \<^verbatim>\<open>no\<close> selects \<^verbatim>\<open>BNO055\<close>, \<^verbatim>\<open>*\<close> selects all three,
  \<^verbatim>\<open>zzz\<close> selects nothing and returns \<open>True\<close>. With \<open>stop_on_first_failure\<close> set, \<^verbatim>\<open>*\<close>
  runs \<^verbatim>\<open>BNO055\<close> and \<^verbatim>\<open>PSRAM\<close>, which fails, and stops.
\<close>

theorem runTestsMatching_selects_by_substring_witness:
  "matching_tests ''no'' demo_manager demo_system = [0] \<and>
   matching_tests ''*'' demo_manager demo_system = [0, 1, 2] \<and>
   matching_tests ''zzz'' demo_manager demo_system = [] \<and>
   fst (runTestsMatching demo_vt ''zzz'' demo_manager demo_system) \<and>
   snd (runTestsMatching demo_vt ''zzz'' demo_manager demo_system) = (demo_manager, demo_system) \<and>
   \<not> stop_on_first_failure demo_manager \<and>
   map fst (test_ends (new_calls demo_system
      (snd (snd (runTestsMatching demo_vt ''no'' demo_manager demo_system))))) = [0] \<and>
   stop_on_first_failure demo_stop_manager \<and>
   test_ends (new_calls demo_system
      (snd (snd (runTestsMatching demo_vt ''*'' demo_stop_manager demo_system))))
     = [(0, PASSED), (1, FAILED)] \<and>
   matching_tests ''*'' demo_stop_manager demo_system = [0, 1, 2] \<and>
   \<not> fst (runTestsMatching demo_vt ''*'' demo_stop_manager demo_system) \<and>
   heap (snd (snd (runTestsMatching demo_vt ''*'' demo_stop_manager demo_system))) 2
     = heap demo_system 2"
proof -
  have z: "runTestsMatching demo_vt ''zzz'' demo_manager demo_system =
     (fst (runTestsMatching demo_vt ''zzz'' demo_manager demo_system),
      fst (snd (runTestsMatching demo_vt ''zzz'' demo_manager demo_system)),
      snd (snd (runTestsMatching demo_vt ''zzz'' demo_manager demo_system)))" by simp
  have n: "runTestsMatching demo_vt ''no'' demo_manager demo_system =
     (fst (runTestsMatching demo_vt ''no'' demo_manager demo_system),
      fst (snd (runTestsMatching demo_vt ''no'' demo_manager demo_system)),
      snd (snd (runTestsMatching demo_vt ''no'' demo_manager demo_system)))" by simp
  have st: "runTestsMatching demo_vt ''*'' demo_stop_manager demo_system =
     (fst (runTestsMatching demo_vt ''*'' demo_stop_manager demo_system),
      fst (snd (runTestsMatching demo_vt ''*'' demo_stop_manager demo_system)),
      snd (snd (runTestsMatching demo_vt ''*'' demo_stop_manager demo_system)))" by simp
  have ns: "\<not> stop_on_first_failure demo_manager"
    by (simp add: demo_manager_def addTest_def TestManager_new_def)
  have ys: "stop_on_first_failure demo_stop_manager"
    by (simp add: demo_stop_manager_def setStopOnFirstFailure_def)
  have ts: "tests demo_stop_manager = [0, 1, 2]"
    by (simp add: demo_stop_manager_def setStopOnFirstFailure_def demo_manager_tests)
  note tz = runTestsMatching_selects_by_substring [OF z]
  note tn = runTestsMatching_selects_by_substring [OF n]
  note tst = runTestsMatching_selects_by_substring [OF st]
  have "matching_tests ''*'' demo_manager demo_system = [0, 1, 2]"
    using tz by (simp add: demo_manager_tests)
  moreover have "fst (runTestsMatching demo_vt ''zzz'' demo_manager demo_system) \<and>
     snd (runTestsMatching demo_vt ''zzz'' demo_manager demo_system) = (demo_manager, demo_system)"
    using tz demo_matching(2) by (metis prod.collapse)
  moreover have "map fst (test_ends (new_calls demo_system
      (snd (snd (runTestsMatching demo_vt ''no'' demo_manager demo_system))))) = [0]"
  proof -
    from tn ns have "map fst (test_ends (new_calls demo_system
      (snd (snd (runTestsMatching demo_vt ''no'' demo_manager demo_system))))) =
      matching_tests ''no'' demo_manager demo_system" by blast
    then show ?thesis by (simp only: demo_matching(1))
  qed
  moreover have "matching_tests ''*'' demo_stop_manager demo_system = [0, 1, 2]"
    using tst by (simp add: ts)
  moreover have "\<not> fst (runTestsMatching demo_vt ''*'' demo_stop_manager demo_system)"
  proof -
    from tst have "fst (runTestsMatching demo_vt ''*'' demo_stop_manager demo_system) \<longleftrightarrow>
      (\<forall>x\<in>set (test_ends (new_calls demo_system
          (snd (snd (runTestsMatching demo_vt ''*'' demo_stop_manager demo_system))))).
         snd x = PASSED)" by blast
    then show ?thesis unfolding demo_stop_matching_ends by simp
  qed
  moreover have "heap (snd (snd (runTestsMatching demo_vt ''*'' demo_stop_manager demo_system))) 2
     = heap demo_system 2"
  proof -
    have "2 \<notin> fst ` set (test_ends (new_calls demo_system
          (snd (snd (runTestsMatching demo_vt ''*'' demo_stop_manager demo_system)))))"
      unfolding demo_stop_matching_ends by simp
    with tst show ?thesis by blast
  qed
  ultimately show ?thesis using demo_matching ns ys demo_stop_matching_ends by simp
qed

lemma overall_loop_flags:
  "overall_loop h xs (hf, ht, ap) =
     (hf \<or> (\<exists>a\<in>set xs. result (status (h a)) = FAILED),
      ht \<or> (\<exists>a\<in>set xs. result (status (h a)) = TIMEOUT),
      ap \<and> (\<forall>a\<in>set xs. result (status (h a)) = PASSED))"
proof (induction xs arbitrary: hf ht ap)
  case Nil
  then show ?case by simp
next
  case (Cons a xs)
  show ?case by (cases "result (status (h a))") (auto simp: Cons.IH)
qed

lemma getOverallResult_eq:
  "getOverallResult m s =
     (if tests m = [] then NOT_RUN
      else if \<exists>a\<in>set (tests m). result (status (heap s a)) = FAILED then FAILED
      else if \<exists>a\<in>set (tests m). result (status (heap s a)) = TIMEOUT then TIMEOUT
      else if \<forall>a\<in>set (tests m). result (status (heap s a)) = PASSED then PASSED
      else SKIPPED)"
  by (simp add: getOverallResult_def overall_loop_flags)

lemma updateOverallResult_FAILED [simp]:
  "overall_result (updateOverallResult FAILED m) = FAILED"
  by (simp add: updateOverallResult_def)

lemma run_loop_frame_set:
  assumes "run_loop vt xs ap m s = (ap', m', s')" and "c \<notin> set xs"
  shows "heap s' c = heap s c"
proof -
  have "set (take (length (test_ends (new_calls s s'))) xs) \<subseteq> set xs" by (rule set_take_subset)
  with run_loop_executed_prefix [OF assms(1)] assms(2)
  have "c \<notin> fst ` set (test_ends (new_calls s s'))" by (metis set_map subsetD)
  then show ?thesis by (rule run_loop_frame [OF assms(1)])
qed

lemma run_loop_overall:
  "run_loop vt xs ap m s = (ap', m', s') \<Longrightarrow> distinct xs \<Longrightarrow>
   \<forall>a\<in>set xs. teardown_keeps_result (vt a) \<Longrightarrow>
   overall_result m = PASSED \<or> overall_result m = FAILED \<Longrightarrow>
     (overall_result m' = PASSED \<or> overall_result m' = FAILED) \<and>
     (overall_result m' = FAILED \<longleftrightarrow>
        overall_result m = FAILED \<or> (\<exists>a\<in>set xs. result (status (heap s' a)) = FAILED)) \<and>
     ((\<exists>a\<in>set xs. result (status (heap s' a)) = FAILED) \<or>
      (\<forall>a\<in>set xs. result (status (heap s' a)) = PASSED))"
proof (induction xs arbitrary: ap m s)
  case Nil
  then show ?case by auto
next
  case (Cons a rest)
  from Cons.prems(2) have d: "distinct rest" and na: "a \<notin> set rest" by simp_all
  from Cons.prems(3) have k: "\<forall>a\<in>set rest. teardown_keeps_result (vt a)"
    and ka: "teardown_keeps_result (vt a)" by simp_all
  from Cons.prems(1) show ?case
  proof (cases rule: run_loop_Cons_cases)
    case (passed s1)
    from executeTest_Some [OF passed(1)] have "result (status (heap s1 a)) = PASSED" by auto
    with run_loop_frame_set [OF passed(2) na] have "result (status (heap s' a)) = PASSED" by simp
    with Cons.IH [OF passed(2) d k Cons.prems(4)] show ?thesis by auto
  next
    case (stopped s1)
    from executeTest_Some [OF stopped(1)] ka have "result (status (heap s1 a)) = FAILED" by auto
    with stopped show ?thesis by auto
  next
    case (failed s1)
    from executeTest_Some [OF failed(1)] ka have f: "result (status (heap s1 a)) = FAILED" by auto
    with run_loop_frame_set [OF failed(3) na] have f': "result (status (heap s' a)) = FAILED" by simp
    have "overall_result (updateOverallResult (result (status (heap s1 a))) m) = PASSED \<or>
          overall_result (updateOverallResult (result (status (heap s1 a))) m) = FAILED"
      using f by simp
    from Cons.IH [OF failed(3) d k this] f f' show ?thesis by auto
  qed
qed

text \<open>
  Claim C4, as the specification states it, fails on the empty registry: \<open>runAllTests\<close>
  records \<open>SKIPPED\<close> there, and \<open>getOverallResult\<close> answers \<open>NOT_RUN\<close>.
\<close>

theorem runAllTests_overall_result_empty_counterexample:
  "getOverallResult (fst (snd (runAllTests demo_vt TestManager_new demo_system)))
      (snd (snd (runAllTests demo_vt TestManager_new demo_system)))
   \<noteq> overall_result (fst (snd (runAllTests demo_vt TestManager_new demo_system)))"
  by (simp add: runAllTests_def TestManager_new_def getOverallResult_def)

text \<open>
  Claim C4, amended. After \<open>runAllTests\<close> on a registry that is not empty, holds no test
  object twice, and whose tests do not write \<open>status_.result\<close> in \<open>teardown()\<close>, the value of
  \<open>getOverallResult\<close> equals the field \<open>overall_result\<close>.
\<close>

theorem runAllTests_overall_result_agrees:
  assumes "tests m \<noteq> []" and "distinct (tests m)"
      and "\<forall>a\<in>set (tests m). teardown_keeps_result (vt a)"
      and "runAllTests vt m s = (b, m', s')"
  shows "getOverallResult m' s' = overall_result m'"
proof -
  let ?m2 = "m\<lparr>execution_start_time := now_ms (env s), overall_result := PASSED\<rparr>"
  obtain ap m3 where l: "run_loop vt (tests m) True ?m2 s = (ap, m3, s')"
    and m': "m' = m3\<lparr>execution_end_time := now_ms (env s')\<rparr>"
    using assms(1,4)
    by (cases "run_loop vt (tests m) True ?m2 s") (auto simp: runAllTests_def Let_def)
  have t: "tests m' = tests m" using run_loop_manager [OF l] m' by simp
  have o: "overall_result m' = overall_result m3" using m' by simp
  have "overall_result ?m2 = PASSED \<or> overall_result ?m2 = FAILED" by simp
  note r = run_loop_overall [OF l assms(2,3) this]
  have 1: "overall_result m' = PASSED \<or> overall_result m' = FAILED"
    using r o by auto
  have 2: "overall_result m' = FAILED \<longleftrightarrow>
             (\<exists>a\<in>set (tests m). result (status (heap s' a)) = FAILED)"
    using r o by auto
  have 3: "(\<exists>a\<in>set (tests m). result (status (heap s' a)) = FAILED) \<or>
            (\<forall>a\<in>set (tests m). result (status (heap s' a)) = PASSED)"
    using r by blast
  show ?thesis
  proof (cases "\<exists>a\<in>set (tests m). result (status (heap s' a)) = FAILED")
    case True
    with 2 t assms(1) show ?thesis by (simp add: getOverallResult_eq)
  next
    case False
    with 3 have "\<forall>a\<in>set (tests m). result (status (heap s' a)) = PASSED" by blast
    moreover from False 1 2 have "overall_result m' = PASSED" by blast
    ultimately show ?thesis using t assms(1) False by (auto simp: getOverallResult_eq)
  qed
qed

theorem runAllTests_overall_result_agrees_witness:
  "tests demo_manager \<noteq> [] \<and> distinct (tests demo_manager) \<and>
   teardown_keeps_result (demo_vt 0) \<and> teardown_keeps_result (demo_vt 1) \<and>
   teardown_keeps_result (demo_vt 2) \<and>
   getOverallResult (fst (snd (runAllTests demo_vt demo_manager demo_system)))
      (snd (snd (runAllTests demo_vt demo_manager demo_system)))
   = overall_result (fst (snd (runAllTests demo_vt demo_manager demo_system))) \<and>
   overall_result (fst (snd (runAllTests demo_vt demo_manager demo_system))) = FAILED"
proof -
  have h1: "tests demo_manager \<noteq> []" and h2: "distinct (tests demo_manager)"
    by (simp_all add: demo_manager_tests)
  have h3: "\<forall>a\<in>set (tests demo_manager). teardown_keeps_result (demo_vt a)"
    by (simp add: demo_vt_keeps)
  have h4: "runAllTests demo_vt demo_manager demo_system =
     (fst (runAllTests demo_vt demo_manager demo_system),
      fst (snd (runAllTests demo_vt demo_manager demo_system)),
      snd (snd (runAllTests demo_vt demo_manager demo_system)))" by simp
  have o: "overall_result (fst (snd (runAllTests demo_vt demo_manager demo_system))) = FAILED"
    by (simp add: demo_eval)
  from runAllTests_overall_result_agrees [OF h1 h2 h3 h4] h1 h2 o demo_vt_keeps
  show ?thesis by simp
qed

section \<open>Statistics\<close>















lemma success_rate_two_of_three:
  "float_mul (float_div (to_float 2) (to_float 3)) 100 = 4369067 / 65536"
  by code_simp

text \<open>
  Claim C8, as the specification states it, fails in two places. Two tests of
  \<open>4294967295\<close> ms and \<open>2\<close> ms add up to \<open>4294967297\<close> ms, but \<open>total_duration_ms\<close> is \<open>1\<close>:
  the sum wraps at \<open>2 ^ 32\<close>. And with two of three tests passed \<open>success_rate\<close> is
  \<open>4369067 / 65536\<close>, the single-precision result, not \<open>2 / 3 * 100\<close>.
\<close>

theorem getStatistics_sum_and_rate_counterexample:
  "tests long_manager = [0, 1] \<and>
   unat (duration_ms (status (heap long_system 0))) +
   unat (duration_ms (status (heap long_system 1))) = 4294967297 \<and>
   unat (total_duration_ms (getStatistics long_manager long_system)) = 1 \<and>
   passed_tests (getStatistics demo_manager stats_system) = 2 \<and>
   total_tests (getStatistics demo_manager stats_system) = 3 \<and>
   success_rate (getStatistics demo_manager stats_system) = 4369067 / 65536 \<and>
   (4369067 / 65536 :: rat) \<noteq> 2 / 3 * 100"
proof -
  have 1: "tests long_manager = [0, 1]"
    by (simp add: long_manager_def addTest_def TestManager_new_def)
  have 2: "unat (duration_ms (status (heap long_system 0))) +
           unat (duration_ms (status (heap long_system 1))) = 4294967297"
    by (simp add: long_system_def finished_def BaseTest_new_def)
  have 3: "unat (total_duration_ms (getStatistics long_manager long_system)) = 1"
    by (simp add: getStatistics_def 1 long_system_def finished_def BaseTest_new_def
          TestStatistics_new_def Let_def)
  have 4: "passed_tests (getStatistics demo_manager stats_system) = 2"
    and 5: "total_tests (getStatistics demo_manager stats_system) = 3"
    by (simp_all add: getStatistics_def demo_manager_tests stats_system_def finished_def
          BaseTest_new_def TestStatistics_new_def Let_def)
  have 6: "success_rate (getStatistics demo_manager stats_system) = 4369067 / 65536"
    by (simp add: getStatistics_def demo_manager_tests stats_system_def finished_def
          BaseTest_new_def TestStatistics_new_def Let_def float_of_uint32_def
          success_rate_two_of_three)
  have 7: "(4369067 / 65536 :: rat) \<noteq> 2 / 3 * 100" by simp
  from 1 2 3 4 5 6 7 show ?thesis by blast
qed




end
